theory Spec2Isabelle
  imports Main "HOL-Library.AList" "HOL-Library.Sublist"
begin

section \<open>The hook repository of pre-commit: \<^verbatim>\<open>pre_commit/repository.py\<close>\<close>

text \<open>
  The class \<^verbatim>\<open>Repository\<close> fetches a pinned version of a hook repository into the
  hooks workspace, loads and merges its manifest, installs the language environments
  and runs a hook. The Python object is mutated in place and talks to git, to the file
  system and to the language backends; here the object's fields and the part of the
  world it touches form one explicit state, every raise is an \<open>Inl\<close> result, and the
  programs outside the class are parameters.
\<close>

subsection \<open>Values, errors and the state\<close>

text \<open>
  A hook record is a Python dict from field names to strings or lists of strings. It is
  an association list, so that a result can be evaluated; only lookups (\<open>map_of\<close>) are
  ever observed.
\<close>

datatype val = Str string | Lst "string list"

type_synonym pydict = "(string \<times> val) list"

text \<open>A path is the list of its components, relative to the hooks workspace.\<close>

type_synonym path = "string list"

text \<open>
  The exceptions the class can meet: \<open>KeyError\<close> of a subscript, \<open>TypeError\<close> of an
  unhashable key, plumbum's \<open>ProcessExecutionError\<close> of a command that exits non-zero,
  \<open>OSError\<close> of a change into a directory that does not exist, and whatever a
  collaborator raises (\<open>CollaboratorError\<close>).
\<close>

datatype error =
    KeyError string
  | TypeError
  | ProcessExecutionError string
  | OSError string
  | CollaboratorError string

text \<open>The log of the calls made to the fetch, install and run collaborators.\<close>

datatype call =
    GitClone string string
  | GitCheckout string
  | InstallEnvironment string path
  | RunHook string path pydict "string list"

text \<open>
  \<^verbatim>\<open>repo_config\<close> is a dict with the keys \<^verbatim>\<open>'repo'\<close>, \<^verbatim>\<open>'sha'\<close> and \<^verbatim>\<open>'hooks'\<close>; it is
  never written to. The cached properties \<^verbatim>\<open>repo_url\<close> and \<^verbatim>\<open>sha\<close> only read it.
\<close>

record repo_config =
  cfg_repo :: string
  cfg_sha :: string
  cfg_hooks :: "pydict list"

text \<open>
  The fields of the object (\<^verbatim>\<open>__created\<close>, \<^verbatim>\<open>__installed\<close> and the three cached
  properties that are computed from the world), the paths that exist under the hooks
  workspace, and the log.
\<close>

record state =
  created :: bool
  installed :: bool
  manifest_cache :: "(string \<times> pydict) list option"
  hooks_cache :: "(string \<times> pydict) list option"
  languages_cache :: "string list option"
  fs :: "path set"
  calls :: "call list"

text \<open>
  A language backend, an entry of \<^verbatim>\<open>pre_commit.languages.all.languages\<close>: its
  \<^verbatim>\<open>ENVIRONMENT_DIR\<close> and what its two functions do to the file system. The registry and
  the programs \<^verbatim>\<open>git clone\<close>, \<^verbatim>\<open>git checkout\<close> and \<^verbatim>\<open>load_manifest\<close> are not part of the
  class; they are taken as parameters, free to succeed or fail and to change the file
  system in any way. The order in which Python iterates a set of strings depends on
  their hashes; it is a parameter too (\<open>ext_set_order\<close>).
\<close>

record backend =
  ENVIRONMENT_DIR :: "string option"
  install_environment :: "path \<Rightarrow> path set \<Rightarrow> (error + unit) \<times> path set"
  backend_run_hook ::
    "path \<Rightarrow> pydict \<Rightarrow> string list \<Rightarrow> path set \<Rightarrow> (error + int \<times> string) \<times> path set"

record ext =
  ext_git_clone :: "string \<Rightarrow> string \<Rightarrow> path set \<Rightarrow> bool \<times> path set"
  ext_git_checkout :: "string \<Rightarrow> path set \<Rightarrow> bool \<times> path set"
  ext_load_manifest :: "path \<Rightarrow> path set \<Rightarrow> error + pydict list"
  ext_languages :: "string \<Rightarrow> backend option"
  ext_set_order :: "string \<Rightarrow> nat"

text \<open>
  A method: it runs in a state and returns a value or raises, and in both cases leaves
  a state behind.
\<close>

type_synonym 'a action = "state \<Rightarrow> (error + 'a) \<times> state"

definition then_do :: "'a action \<Rightarrow> ('a \<Rightarrow> 'b action) \<Rightarrow> 'b action" where
  "then_do m f s = (case m s of (Inl e, s') \<Rightarrow> (Inl e, s') | (Inr v, s') \<Rightarrow> f v s')"

definition ret :: "error + 'a \<Rightarrow> 'a action" where
  "ret r s = (r, s)"

subsection \<open>Dicts\<close>

definition getitem :: "pydict \<Rightarrow> string \<Rightarrow> error + val" where
  "getitem d k = (case map_of d k of None \<Rightarrow> Inl (KeyError k) | Some v \<Rightarrow> Inr v)"

text \<open>A value used as a key of a dict or as an element of a set is hashed: a list is not hashable.\<close>

definition hash_key :: "val \<Rightarrow> error + string" where
  "hash_key v = (case v of Str k \<Rightarrow> Inr k | Lst _ \<Rightarrow> Inl TypeError)"

text \<open>
  \<^verbatim>\<open>dict(d, **kw)\<close>: a copy of \<open>d\<close> updated with every item of \<open>kw\<close>, so a key of \<open>kw\<close>
  replaces the same key of \<open>d\<close>.
\<close>

definition dict_kw :: "pydict \<Rightarrow> pydict \<Rightarrow> pydict" where
  "dict_kw d kw = AList.merge d kw"

subsection \<open>The helpers imported by the module\<close>

text \<open>
  Modelled from the spec: \<^verbatim>\<open>clean_path_on_failure\<close> of the module \<^verbatim>\<open>pre_commit.util\<close>,
  which is imported here and missing from the source tree. "If any step fails, the
  partially-created target directory is removed before the error propagates": the body
  runs, and when it raises the path and everything below it are removed and the same
  error is raised.
\<close>

definition rmtree :: "path \<Rightarrow> path set \<Rightarrow> path set" where
  "rmtree p f = {q \<in> f. \<not> prefix p q}"

definition clean_path_on_failure :: "path \<Rightarrow> 'a action \<Rightarrow> 'a action" where
  "clean_path_on_failure p body s =
     (case body s of
        (Inl e, s') \<Rightarrow> (Inl e, s'\<lparr>fs := rmtree p (fs s')\<rparr>)
      | (Inr v, s') \<Rightarrow> (Inr v, s'))"

text \<open>
  Modelled from the spec: \<^verbatim>\<open>in_hooks_workspace\<close> of the module
  \<^verbatim>\<open>pre_commit.hooks_workspace\<close>, missing from the source tree. It makes the shared
  workspace root the working directory for the enclosed block and restores the previous
  one on every exit. Paths here are relative to the workspace root, so the block runs
  as it is.
\<close>

definition in_hooks_workspace :: "'a action \<Rightarrow> 'a action" where
  "in_hooks_workspace body = body"

text \<open>
  plumbum's \<^verbatim>\<open>local.cwd(d)\<close>: the block runs with \<open>d\<close> as working directory, which is
  restored on every exit; changing into a directory that does not exist raises.
\<close>

definition local_cwd :: "path \<Rightarrow> 'a action \<Rightarrow> 'a action" where
  "local_cwd d body s = (if d \<in> fs s then body s else (Inl (OSError ''chdir''), s))"

text \<open>
  Modelled from the spec: the class \<^verbatim>\<open>PrefixedCommandRunner\<close> of the module
  \<^verbatim>\<open>pre_commit.prefixed_command_runner\<close>, missing from the source tree. A command
  runner is the directory it is bound to; \<^verbatim>\<open>from_command_runner\<close> gives the runner bound to a subdirectory without touching the
  file system, and \<^verbatim>\<open>exists\<close> says whether a path under the runner's directory exists.
\<close>

definition from_command_runner :: "path \<Rightarrow> string \<Rightarrow> path" where
  "from_command_runner runner p = runner @ [p]"

definition cmd_exists :: "path \<Rightarrow> string \<Rightarrow> path set \<Rightarrow> bool" where
  "cmd_exists runner p f \<longleftrightarrow> runner @ [p] \<in> f"

text \<open>
  Modelled from the spec: \<^verbatim>\<open>cached_property\<close> of the module \<^verbatim>\<open>pre_commit.util\<close>,
  missing from the source tree. The value is "computed lazily on first access and
  cached for the Repository's lifetime"; a computation that raises stores nothing.
\<close>

definition cached_property ::
  "(state \<Rightarrow> 'a option) \<Rightarrow> ('a \<Rightarrow> state \<Rightarrow> state) \<Rightarrow> 'a action \<Rightarrow> 'a action" where
  "cached_property cache store compute s =
     (case cache s of
        Some v \<Rightarrow> (Inr v, s)
      | None \<Rightarrow> then_do compute (\<lambda>v s'. (Inr v, store v s')) s)"

text \<open>
  The two git commands, run through plumbum: the call is logged, a non-zero exit status
  raises. A \<^verbatim>\<open>git clone\<close> that exits with status zero has created its target directory.
\<close>

definition git_clone :: "ext \<Rightarrow> string \<Rightarrow> string \<Rightarrow> unit action" where
  "git_clone x url target s =
     (let (ok, f) = ext_git_clone x url target (fs s);
          s' = s\<lparr>calls := calls s @ [GitClone url target]\<rparr>
      in if ok then (Inr (), s'\<lparr>fs := insert [target] f\<rparr>)
         else (Inl (ProcessExecutionError ''git clone''), s'\<lparr>fs := f\<rparr>))"

definition git_checkout :: "ext \<Rightarrow> string \<Rightarrow> unit action" where
  "git_checkout x version s =
     (let (ok, f) = ext_git_checkout x version (fs s);
          s' = s\<lparr>calls := calls s @ [GitCheckout version], fs := f\<rparr>
      in if ok then (Inr (), s')
         else (Inl (ProcessExecutionError ''git checkout''), s'))"

text \<open>The two functions of a backend, logged.\<close>

definition call_install_environment :: "backend \<Rightarrow> string \<Rightarrow> path \<Rightarrow> unit action" where
  "call_install_environment b name runner s =
     (let (r, f) = install_environment b runner (fs s)
      in (r, s\<lparr>calls := calls s @ [InstallEnvironment name runner], fs := f\<rparr>))"

definition call_run_hook ::
  "backend \<Rightarrow> string \<Rightarrow> path \<Rightarrow> pydict \<Rightarrow> string list \<Rightarrow> (int \<times> string) action" where
  "call_run_hook b name runner hook file_args s =
     (let (r, f) = backend_run_hook b runner hook file_args (fs s)
      in (r, s\<lparr>calls := calls s @ [RunHook name runner hook file_args], fs := f\<rparr>))"

subsection \<open>The class Repository\<close>

definition Repository_init :: "path set \<Rightarrow> state" where
  "Repository_init f =
     \<lparr>created = False, installed = False, manifest_cache = None, hooks_cache = None,
      languages_cache = None, fs = f, calls = []\<rparr>"

definition repo_url :: "repo_config \<Rightarrow> string" where
  "repo_url cfg = cfg_repo cfg"

definition sha :: "repo_config \<Rightarrow> string" where
  "sha cfg = cfg_sha cfg"

definition get_cmd_runner :: "repo_config \<Rightarrow> path \<Rightarrow> path" where
  "get_cmd_runner cfg hooks_cmd_runner = from_command_runner hooks_cmd_runner (sha cfg)"

text \<open>
  The congruence rules by which the definition of \<open>create\<close> sees through the three
  combinators.
\<close>

lemma then_do_cong [fundef_cong]:
  "m s = m' s' \<Longrightarrow> (\<And>v t. m' s' = (Inr v, t) \<Longrightarrow> f v t = f' v t) \<Longrightarrow>
   then_do m f s = then_do m' f' s'"
  by (auto simp: then_do_def split: prod.splits sum.splits)

lemma clean_path_on_failure_cong [fundef_cong]:
  "body s = body' s' \<Longrightarrow> p = p' \<Longrightarrow>
   clean_path_on_failure p body s = clean_path_on_failure p' body' s'"
  by (simp add: clean_path_on_failure_def)

lemma in_hooks_workspace_cong [fundef_cong]:
  "body s = body' s' \<Longrightarrow> in_hooks_workspace body s = in_hooks_workspace body' s'"
  by (simp add: in_hooks_workspace_def)

text \<open>
  \<^verbatim>\<open>create\<close> and \<^verbatim>\<open>require_created\<close> call each other: the checkout step of \<^verbatim>\<open>create\<close> runs
  under \<^verbatim>\<open>with self.in_checkout()\<close>, which starts with \<^verbatim>\<open>self.require_created()\<close> while
  \<^verbatim>\<open>__created\<close> may still be false. By then the clone has created the directory, so the
  inner \<^verbatim>\<open>create\<close> returns at once. In the clause of \<^verbatim>\<open>create\<close> the block
  \<^verbatim>\<open>with self.in_checkout(): git checkout\<close> is written with the body of \<^verbatim>\<open>in_checkout\<close>
  in place; lemma \<open>create_in_checkout\<close> gives the clause with \<open>in_checkout\<close> itself.
\<close>

function create :: "ext \<Rightarrow> repo_config \<Rightarrow> unit action"
  and require_created :: "ext \<Rightarrow> repo_config \<Rightarrow> unit action" where
  "create x cfg s =
     in_hooks_workspace
       (\<lambda>s. if [sha cfg] \<in> fs s then (Inr (), s)
            else clean_path_on_failure [sha cfg]
                   (then_do (git_clone x (repo_url cfg) (sha cfg))
                      (\<lambda>_. then_do (require_created x cfg)
                             (\<lambda>_. in_hooks_workspace
                                    (local_cwd [sha cfg] (git_checkout x (sha cfg)))))) s) s"
| "require_created x cfg s =
     (if created s then (Inr (), s)
      else then_do (create x cfg) (\<lambda>_ s'. (Inr (), s'\<lparr>created := True\<rparr>)) s)"
  by pat_completeness auto
termination
  by (relation "measure (\<lambda>a. case a of
            Inl (x, cfg, s) \<Rightarrow> (if [sha cfg] \<in> fs s then 0 else 2)
          | Inr (x, cfg, s) \<Rightarrow> (if [sha cfg] \<in> fs s then 1 else 3))")
     (auto simp: git_clone_def Let_def split: prod.splits if_splits)

declare create.simps [simp del] require_created.simps [simp del]

text \<open>
  \<^verbatim>\<open>in_checkout\<close>: creation is required, then the block runs in the hooks workspace
  with the version directory as working directory.
\<close>

definition in_checkout :: "ext \<Rightarrow> repo_config \<Rightarrow> 'a action \<Rightarrow> 'a action" where
  "in_checkout x cfg body =
     then_do (require_created x cfg) (\<lambda>_. in_hooks_workspace (local_cwd [sha cfg] body))"

text \<open>
  \<^verbatim>\<open>manifest\<close>: the dict built from the pairs \<^verbatim>\<open>(hook['id'], hook)\<close> of the loaded
  manifest, a later entry replacing an earlier one with the same id.
\<close>

fun manifest_items ::
  "pydict list \<Rightarrow> (string \<times> pydict) list \<Rightarrow> error + (string \<times> pydict) list" where
  "manifest_items [] acc = Inr acc"
| "manifest_items (hook # rest) acc =
     (case getitem hook ''id'' of
        Inl e \<Rightarrow> Inl e
      | Inr v \<Rightarrow>
          (case hash_key v of
             Inl e \<Rightarrow> Inl e
           | Inr k \<Rightarrow> manifest_items rest (AList.update k hook acc)))"

definition load_manifest :: "ext \<Rightarrow> repo_config \<Rightarrow> (pydict list) action" where
  "load_manifest x cfg s = (ext_load_manifest x [sha cfg] (fs s), s)"

definition manifest :: "ext \<Rightarrow> repo_config \<Rightarrow> ((string \<times> pydict) list) action" where
  "manifest x cfg =
     cached_property manifest_cache (\<lambda>v s. s\<lparr>manifest_cache := Some v\<rparr>)
       (in_checkout x cfg
          (then_do (load_manifest x cfg) (\<lambda>entries. ret (manifest_items entries []))))"

text \<open>
  \<^verbatim>\<open>hooks\<close>: the \<^verbatim>\<open>OrderedDict\<close> of the pairs
  \<^verbatim>\<open>(hook['id'], dict(hook, **self.manifest[hook['id']]))\<close>, one for each record of
  \<^verbatim>\<open>repo_config['hooks']\<close> in order. The generator is consumed pair by pair: the first
  subscript \<^verbatim>\<open>hook['id']\<close>, the property \<^verbatim>\<open>self.manifest\<close>, the second \<^verbatim>\<open>hook['id']\<close>
  hashed as a key of the manifest, the lookup, the merge, and the store under the id.
  A store under a key that is already there replaces its value in place.
\<close>

fun hooks_items ::
  "ext \<Rightarrow> repo_config \<Rightarrow> pydict list \<Rightarrow> (string \<times> pydict) list \<Rightarrow>
   ((string \<times> pydict) list) action" where
  "hooks_items x cfg [] acc s = (Inr acc, s)"
| "hooks_items x cfg (hook # rest) acc s =
     (case getitem hook ''id'' of
        Inl e \<Rightarrow> (Inl e, s)
      | Inr v \<Rightarrow>
          (case manifest x cfg s of
             (Inl e, s') \<Rightarrow> (Inl e, s')
           | (Inr m, s') \<Rightarrow>
               (case hash_key v of
                  Inl e \<Rightarrow> (Inl e, s')
                | Inr k \<Rightarrow>
                    (case map_of m k of
                       None \<Rightarrow> (Inl (KeyError k), s')
                     | Some entry \<Rightarrow>
                         hooks_items x cfg rest
                           (AList.update k (dict_kw hook entry) acc) s'))))"

definition hooks :: "ext \<Rightarrow> repo_config \<Rightarrow> ((string \<times> pydict) list) action" where
  "hooks x cfg =
     cached_property hooks_cache (\<lambda>v s. s\<lparr>hooks_cache := Some v\<rparr>)
       (hooks_items x cfg (cfg_hooks cfg) [])"

text \<open>
  \<^verbatim>\<open>languages\<close>: the set of the \<^verbatim>\<open>hook['language']\<close> of the effective hooks, held as
  the list of its elements without repetition.
\<close>

fun language_set :: "pydict list \<Rightarrow> string list \<Rightarrow> error + string list" where
  "language_set [] acc = Inr acc"
| "language_set (hook # rest) acc =
     (case getitem hook ''language'' of
        Inl e \<Rightarrow> Inl e
      | Inr v \<Rightarrow>
          (case hash_key v of
             Inl e \<Rightarrow> Inl e
           | Inr l \<Rightarrow> language_set rest (if l \<in> set acc then acc else acc @ [l])))"

definition languages :: "ext \<Rightarrow> repo_config \<Rightarrow> (string list) action" where
  "languages x cfg =
     cached_property languages_cache (\<lambda>v s. s\<lparr>languages_cache := Some v\<rparr>)
       (then_do (hooks x cfg) (\<lambda>hs. ret (language_set (map snd hs) [])))"

text \<open>
  \<^verbatim>\<open>for language_name in self.languages\<close>: Python iterates a set in an order that
  depends on the hashes of its elements. The elements are visited in the order of
  their keys \<open>ext_set_order\<close>; every order of a set is the order of some keys.
\<close>

definition set_iter :: "ext \<Rightarrow> string list \<Rightarrow> string list" where
  "set_iter x ls = sort_key (ext_set_order x) ls"

text \<open>
  \<^verbatim>\<open>install\<close>: the body of the loop for one language name, and the loop. An unknown
  language name is a \<open>KeyError\<close> of the registry.
\<close>

definition install_language :: "ext \<Rightarrow> path \<Rightarrow> string \<Rightarrow> unit action" where
  "install_language x repo_cmd_runner language_name s =
     (case ext_languages x language_name of
        None \<Rightarrow> (Inl (KeyError language_name), s)
      | Some language \<Rightarrow>
          (case ENVIRONMENT_DIR language of
             None \<Rightarrow> (Inr (), s)
           | Some d \<Rightarrow>
               if cmd_exists repo_cmd_runner d (fs s) then (Inr (), s)
               else call_install_environment language language_name repo_cmd_runner s))"

fun install_loop :: "ext \<Rightarrow> path \<Rightarrow> string list \<Rightarrow> unit action" where
  "install_loop x repo_cmd_runner [] s = (Inr (), s)"
| "install_loop x repo_cmd_runner (language_name # rest) s =
     (case install_language x repo_cmd_runner language_name s of
        (Inl e, s') \<Rightarrow> (Inl e, s')
      | (Inr _, s') \<Rightarrow> install_loop x repo_cmd_runner rest s')"

definition install :: "ext \<Rightarrow> repo_config \<Rightarrow> path \<Rightarrow> unit action" where
  "install x cfg cmd_runner =
     then_do (require_created x cfg)
       (\<lambda>_. then_do (languages x cfg)
              (\<lambda>ls. install_loop x (get_cmd_runner cfg cmd_runner) (set_iter x ls)))"

definition require_installed :: "ext \<Rightarrow> repo_config \<Rightarrow> path \<Rightarrow> unit action" where
  "require_installed x cfg cmd_runner s =
     (if installed s then (Inr (), s)
      else then_do (install x cfg cmd_runner) (\<lambda>_ s'. (Inr (), s'\<lparr>installed := True\<rparr>)) s)"

text \<open>
  \<^verbatim>\<open>run_hook\<close>: \<^verbatim>\<open>self.hooks[hook_id]\<close>, then \<^verbatim>\<open>languages[hook['language']]\<close>, then the
  backend's \<^verbatim>\<open>run_hook\<close>, whose result is returned.
\<close>

definition run_hook ::
  "ext \<Rightarrow> repo_config \<Rightarrow> path \<Rightarrow> string \<Rightarrow> string list \<Rightarrow> (int \<times> string) action" where
  "run_hook x cfg cmd_runner hook_id file_args =
     then_do (require_installed x cfg cmd_runner)
       (\<lambda>_. then_do (hooks x cfg)
          (\<lambda>hs. case map_of hs hook_id of
                  None \<Rightarrow> ret (Inl (KeyError hook_id))
                | Some hook \<Rightarrow>
                    then_do (ret (getitem hook ''language''))
                      (\<lambda>v. then_do (ret (hash_key v))
                         (\<lambda>l. case ext_languages x l of
                                None \<Rightarrow> ret (Inl (KeyError l))
                              | Some language \<Rightarrow>
                                  call_run_hook language l (get_cmd_runner cfg cmd_runner)
                                    hook file_args))))"

text \<open>A caller that makes the same call \<open>n\<close> repeatedly in a row; a raise ends the sequence.\<close>

fun repeatedly :: "nat \<Rightarrow> unit action \<Rightarrow> unit action" where
  "repeatedly 0 m s = (Inr (), s)"
| "repeatedly (Suc n) m s =
     (case m s of (Inl e, s') \<Rightarrow> (Inl e, s') | (Inr _, s') \<Rightarrow> repeatedly n m s')"

section \<open>Notions used to state the properties\<close>

text \<open>
  What one fetch adds to the log: nothing, a clone that failed, or a clone and a
  checkout.
\<close>

definition fetch_log :: "repo_config \<Rightarrow> call list set" where
  "fetch_log cfg =
     {[], [GitClone (repo_url cfg) (sha cfg)],
      [GitClone (repo_url cfg) (sha cfg), GitCheckout (sha cfg)]}"

text \<open>The calls of a backend's \<^verbatim>\<open>run_hook\<close> in a log.\<close>

fun is_run :: "call \<Rightarrow> bool" where
  "is_run (RunHook _ _ _ _) = True"
| "is_run _ = False"

text \<open>How often a log holds the call of the \<^verbatim>\<open>install_environment\<close> of language \<open>l\<close> with runner \<open>r\<close>.\<close>

definition install_calls :: "string \<Rightarrow> path \<Rightarrow> call list \<Rightarrow> nat" where
  "install_calls l r cs = length (filter (\<lambda>c. c = InstallEnvironment l r) cs)"

text \<open>
  The test of the loop of \<^verbatim>\<open>install\<close>: the backend has no \<^verbatim>\<open>ENVIRONMENT_DIR\<close>, or its
  environment directory exists under the runner.
\<close>

definition already_installed :: "backend \<Rightarrow> path \<Rightarrow> path set \<Rightarrow> bool" where
  "already_installed b r f =
     (case ENVIRONMENT_DIR b of None \<Rightarrow> True | Some d \<Rightarrow> cmd_exists r d f)"

text \<open>A declared record or manifest entry whose \<^verbatim>\<open>'id'\<close> is the string \<open>k\<close>.\<close>

definition has_id :: "string \<Rightarrow> pydict \<Rightarrow> bool" where
  "has_id k hook \<longleftrightarrow> map_of hook ''id'' = Some (Str k)"

text \<open>
  The pairs \<open>hooks_items\<close> computes once the manifest \<open>m\<close> is loaded: the same steps,
  without the state.
\<close>

fun merge_items ::
  "(string \<times> pydict) list \<Rightarrow> pydict list \<Rightarrow> (string \<times> pydict) list \<Rightarrow>
   error + (string \<times> pydict) list" where
  "merge_items m [] acc = Inr acc"
| "merge_items m (hook # rest) acc =
     (case getitem hook ''id'' of
        Inl e \<Rightarrow> Inl e
      | Inr v \<Rightarrow>
          (case hash_key v of
             Inl e \<Rightarrow> Inl e
           | Inr k \<Rightarrow>
               (case map_of m k of
                  None \<Rightarrow> Inl (KeyError k)
                | Some entry \<Rightarrow> merge_items m rest (AList.update k (dict_kw hook entry) acc))))"

subsection \<open>A concrete world\<close>

text \<open>
  Three backends, a manifest and a descriptor, for evaluating the class on concrete
  inputs. The python backend has an environment directory and its hooks fail with exit
  status 1; the script backend has no environment directory; the ruby backend installs
  only where the path \<^verbatim>\<open>gems\<close> exists. A set of languages is iterated in the order
  python, script, ruby.
\<close>

definition python_backend :: backend where
  "python_backend =
     \<lparr>ENVIRONMENT_DIR = Some ''py_env'',
      install_environment = (\<lambda>runner f. (Inr (), insert (runner @ [''py_env'']) f)),
      backend_run_hook = (\<lambda>runner hook file_args f. (Inr (1, ''failed''), f))\<rparr>"

definition script_backend :: backend where
  "script_backend =
     \<lparr>ENVIRONMENT_DIR = None,
      install_environment = (\<lambda>runner f. (Inr (), f)),
      backend_run_hook = (\<lambda>runner hook file_args f. (Inr (0, ''''), f))\<rparr>"

definition ruby_backend :: backend where
  "ruby_backend =
     \<lparr>ENVIRONMENT_DIR = Some ''rb_env'',
      install_environment =
        (\<lambda>runner f. if [''gems''] \<in> f then (Inr (), insert (runner @ [''rb_env'']) f)
                     else (Inl (CollaboratorError ''gem install''), f)),
      backend_run_hook = (\<lambda>runner hook file_args f. (Inr (0, ''''), f))\<rparr>"

definition example_manifest :: "pydict list" where
  "example_manifest =
     [[(''id'', Str ''x''), (''language'', Str ''python''), (''args'', Lst [])],
      [(''id'', Str ''lint''), (''language'', Str ''script'')],
      [(''id'', Str ''rubocop''), (''language'', Str ''ruby'')]]"

definition example_ext :: ext where
  "example_ext =
     \<lparr>ext_git_clone = (\<lambda>url target f. (True, f)),
      ext_git_checkout = (\<lambda>version f. (True, f)),
      ext_load_manifest = (\<lambda>p f. Inr example_manifest),
      ext_languages =
        [''python'' \<mapsto> python_backend, ''script'' \<mapsto> script_backend,
         ''ruby'' \<mapsto> ruby_backend],
      ext_set_order =
        (\<lambda>l. if l = ''python'' then 0 else if l = ''script'' then 1 else 2)\<rparr>"

definition example_config :: repo_config where
  "example_config =
     \<lparr>cfg_repo = ''git@example.com:hooks'', cfg_sha = ''abc123'',
      cfg_hooks = [[(''id'', Str ''x''), (''args'', Lst [''--fix''])]]\<rparr>"

text \<open>The same descriptor declaring a hook the manifest does not have, and one declaring the hook \<open>x\<close> twice.\<close>

definition example_config_missing :: repo_config where
  "example_config_missing =
     example_config\<lparr>cfg_hooks := [[(''id'', Str ''x'')], [(''id'', Str ''y'')]]\<rparr>"

definition example_config_twice :: repo_config where
  "example_config_twice =
     example_config\<lparr>cfg_hooks :=
       [[(''id'', Str ''x''), (''args'', Lst [''--fix''])],
        [(''id'', Str ''lint'')],
        [(''id'', Str ''x''), (''files'', Str ''py$'')]]\<rparr>"

text \<open>The same world with a \<^verbatim>\<open>git checkout\<close> that fails after it has written into the clone.\<close>

definition failing_checkout_ext :: ext where
  "failing_checkout_ext =
     example_ext\<lparr>ext_git_checkout := (\<lambda>version f. (False, insert [version, ''.git''] f))\<rparr>"

text \<open>Descriptors that declare the python and the script hook, and all three hooks.\<close>

definition example_config_two :: repo_config where
  "example_config_two =
     example_config\<lparr>cfg_hooks := [[(''id'', Str ''x'')], [(''id'', Str ''lint'')]]\<rparr>"

definition example_config_all :: repo_config where
  "example_config_all =
     example_config\<lparr>cfg_hooks :=
       [[(''id'', Str ''rubocop'')], [(''id'', Str ''lint'')], [(''id'', Str ''x'')]]\<rparr>"

section \<open>Lemmas\<close>

subsection \<open>Creation\<close>

lemma git_clone_creates: "git_clone x url target s = (Inr v, t) \<Longrightarrow> [target] \<in> fs t"
  by (auto simp: git_clone_def Let_def split: prod.splits if_splits)

lemma require_created_created: "created s \<Longrightarrow> require_created x cfg s = (Inr (), s)"
  by (simp add: require_created.simps)

lemma create_exists: "[sha cfg] \<in> fs s \<Longrightarrow> create x cfg s = (Inr (), s)"
  by (simp add: create.simps in_hooks_workspace_def)

lemma require_created_exists:
  "[sha cfg] \<in> fs s \<Longrightarrow> require_created x cfg s = (Inr (), s\<lparr>created := True\<rparr>)"
  by (simp add: require_created.simps create.simps in_hooks_workspace_def then_do_def)

lemma create_in_checkout:
  "create x cfg s =
     in_hooks_workspace
       (\<lambda>s. if [sha cfg] \<in> fs s then (Inr (), s)
            else clean_path_on_failure [sha cfg]
                   (then_do (git_clone x (repo_url cfg) (sha cfg))
                      (\<lambda>_. in_checkout x cfg (git_checkout x (sha cfg)))) s) s"
  unfolding in_checkout_def by (rule create.simps)

lemma create_absent:
  "[sha cfg] \<notin> fs s \<Longrightarrow>
   create x cfg s =
     (case git_clone x (repo_url cfg) (sha cfg) s of
        (Inl e, s1) \<Rightarrow> (Inl e, s1\<lparr>fs := rmtree [sha cfg] (fs s1)\<rparr>)
      | (Inr _, s1) \<Rightarrow>
          (case git_checkout x (sha cfg) (s1\<lparr>created := True\<rparr>) of
             (Inl e, s2) \<Rightarrow> (Inl e, s2\<lparr>fs := rmtree [sha cfg] (fs s2)\<rparr>)
           | (Inr v, s2) \<Rightarrow> (Inr v, s2)))"
  apply (subst create.simps)
  apply (simp add: in_hooks_workspace_def clean_path_on_failure_def then_do_def
      split: prod.splits sum.splits)
  apply (intro allI impI conjI)
  apply (auto dest!: git_clone_creates simp: require_created_exists local_cwd_def)
  done

lemma git_clone_calls:
  "git_clone x url target s = (r, t) \<Longrightarrow>
   calls t = calls s @ [GitClone url target] \<and> created t = created s \<and> installed t = installed s
   \<and> manifest_cache t = manifest_cache s \<and> hooks_cache t = hooks_cache s
   \<and> languages_cache t = languages_cache s"
  by (auto simp: git_clone_def Let_def split: prod.splits if_splits)

lemma git_checkout_calls:
  "git_checkout x v s = (r, t) \<Longrightarrow>
   calls t = calls s @ [GitCheckout v] \<and> created t = created s \<and> installed t = installed s
   \<and> manifest_cache t = manifest_cache s \<and> hooks_cache t = hooks_cache s
   \<and> languages_cache t = languages_cache s"
  by (auto simp: git_checkout_def Let_def split: prod.splits if_splits)

lemma create_frame:
  assumes "create x cfg s = (r, t)"
  shows "(\<exists>evs \<in> fetch_log cfg. calls t = calls s @ evs) \<and> installed t = installed s
   \<and> manifest_cache t = manifest_cache s \<and> hooks_cache t = hooks_cache s
   \<and> languages_cache t = languages_cache s \<and> (created s \<longrightarrow> created t)"
proof (cases "[sha cfg] \<in> fs s")
  case True
  with assms show ?thesis by (simp add: create_exists fetch_log_def)
next
  case False
  obtain r1 s1 where c: "git_clone x (repo_url cfg) (sha cfg) s = (r1, s1)"
    by (cases "git_clone x (repo_url cfg) (sha cfg) s")
  note gc = git_clone_calls [OF c]
  show ?thesis
  proof (cases r1)
    case (Inl e)
    with assms c have "t = s1\<lparr>fs := rmtree [sha cfg] (fs s1)\<rparr>"
      unfolding create_absent [OF False] by simp
    with gc show ?thesis by (simp add: fetch_log_def)
  next
    case (Inr u)
    obtain r2 s2 where k: "git_checkout x (sha cfg) (s1\<lparr>created := True\<rparr>) = (r2, s2)"
      by (cases "git_checkout x (sha cfg) (s1\<lparr>created := True\<rparr>)")
    note gk = git_checkout_calls [OF k]
    show ?thesis
    proof (cases r2)
      case (Inl e)
      with assms c Inr k have "t = s2\<lparr>fs := rmtree [sha cfg] (fs s2)\<rparr>"
        unfolding create_absent [OF False] by simp
      with gc gk show ?thesis by (simp add: fetch_log_def)
    next
      case r2: (Inr v)
      with assms c Inr k have "t = s2"
        unfolding create_absent [OF False] by simp
      with gc gk show ?thesis by (simp add: fetch_log_def)
    qed
  qed
qed

lemma create_ok_created_or_exists:
  assumes "create x cfg s = (Inr v, t)"
  shows "[sha cfg] \<in> fs s \<and> t = s \<or> [sha cfg] \<notin> fs s \<and> created t"
proof (cases "[sha cfg] \<in> fs s")
  case True
  with assms show ?thesis by (simp add: create_exists)
next
  case False
  show ?thesis
    using assms False unfolding create_absent [OF False]
    by (auto split: prod.splits sum.splits dest!: git_clone_calls git_checkout_calls)
qed

lemma require_created_frame:
  assumes "require_created x cfg s = (r, t)"
  shows "(\<exists>evs \<in> fetch_log cfg. calls t = calls s @ evs) \<and> installed t = installed s
   \<and> manifest_cache t = manifest_cache s \<and> hooks_cache t = hooks_cache s
   \<and> languages_cache t = languages_cache s \<and> (created s \<longrightarrow> t = s)"
proof (cases "created s")
  case True
  with assms show ?thesis by (simp add: require_created.simps fetch_log_def)
next
  case False
  obtain r1 t1 where c: "create x cfg s = (r1, t1)" by (cases "create x cfg s")
  from create_frame [OF c] assms False c show ?thesis
    by (auto simp: require_created.simps then_do_def split: sum.splits)
qed

lemma require_created_ok: "require_created x cfg s = (Inr v, t) \<Longrightarrow> created t"
  by (auto simp: require_created.simps then_do_def split: if_splits prod.splits sum.splits)

lemma times_require_created_created:
  "created s \<Longrightarrow> repeatedly n (require_created x cfg) s = (Inr (), s)"
  by (induction n) (simp_all add: require_created.simps)

lemma times_create_exists:
  "[sha cfg] \<in> fs s \<Longrightarrow> repeatedly n (create x cfg) s = (Inr (), s)"
  by (induction n) (simp_all add: create_exists)

lemma times_require_created_log:
  "\<exists>evs \<in> fetch_log cfg. calls (snd (repeatedly n (require_created x cfg) s)) = calls s @ evs"
proof (cases n)
  case 0
  then show ?thesis by (simp add: fetch_log_def)
next
  case (Suc k)
  obtain r t where c: "require_created x cfg s = (r, t)" by (cases "require_created x cfg s")
  show ?thesis
  proof (cases r)
    case (Inl e)
    with c Suc require_created_frame [OF c] show ?thesis by simp
  next
    case (Inr v)
    with c have "created t" by (simp add: require_created_ok)
    then have "repeatedly k (require_created x cfg) t = (Inr (), t)"
      by (rule times_require_created_created)
    with c Inr Suc require_created_frame [OF c] show ?thesis by simp
  qed
qed

subsection \<open>The merge of the declared hooks with the manifest\<close>

lemma dict_kw_lookup:
  "map_of (dict_kw d kw) f = (case map_of kw f of Some v \<Rightarrow> Some v | None \<Rightarrow> map_of d f)"
  by (simp add: dict_kw_def merge_conv' map_add_def)

lemma getitem_id_Inr:
  "getitem hook ''id'' = Inr v \<Longrightarrow> hash_key v = Inr k \<Longrightarrow> has_id k' hook \<longleftrightarrow> k' = k"
  by (auto simp: getitem_def hash_key_def has_id_def split: option.splits val.splits)

lemma merge_items_distinct:
  "merge_items m hs acc = Inr od \<Longrightarrow> distinct (map fst acc) \<Longrightarrow> distinct (map fst od)"
  by (induction hs arbitrary: acc)
     (auto split: sum.splits option.splits simp: distinct_update)

lemma merge_items_lookup:
  "merge_items m hs acc = Inr od \<Longrightarrow>
   map_of od k =
     (if \<exists>h \<in> set hs. has_id k h
      then Some (dict_kw (last (filter (has_id k) hs)) (the (map_of m k)))
      else map_of acc k)"
proof (induction hs arbitrary: acc)
  case Nil
  then show ?case by simp
next
  case (Cons h hs)
  from Cons.prems obtain v k' entry where
    v: "getitem h ''id'' = Inr v" and k': "hash_key v = Inr k'" and
    e: "map_of m k' = Some entry" and
    r: "merge_items m hs (AList.update k' (dict_kw h entry) acc) = Inr od"
    by (auto split: sum.splits option.splits)
  have hid: "has_id k h \<longleftrightarrow> k = k'" using getitem_id_Inr [OF v k'] .
  show ?case
    using Cons.IH [OF r] hid e
    by (auto simp: update_conv' filter_empty_conv)
qed

lemma merge_items_keys:
  "merge_items m hs acc = Inr od \<Longrightarrow>
   fst ` set od = fst ` set acc \<union> {k. \<exists>h \<in> set hs. has_id k h}"
proof (induction hs arbitrary: acc)
  case Nil
  then show ?case by simp
next
  case (Cons h hs)
  from Cons.prems obtain v k' entry where
    v: "getitem h ''id'' = Inr v" and k': "hash_key v = Inr k'" and
    e: "map_of m k' = Some entry" and
    r: "merge_items m hs (AList.update k' (dict_kw h entry) acc) = Inr od"
    by (auto split: sum.splits option.splits)
  have hid: "\<And>k. has_id k h \<longleftrightarrow> k = k'" using getitem_id_Inr [OF v k'] .
  show ?case
    using Cons.IH [OF r] hid by (auto simp: dom_update)
qed

lemma merge_items_ok:
  "\<forall>h \<in> set hs. \<exists>k. has_id k h \<and> map_of m k \<noteq> None \<Longrightarrow> \<exists>od. merge_items m hs acc = Inr od"
  by (induction hs arbitrary: acc)
     (auto simp: has_id_def getitem_def hash_key_def)

lemma merge_items_missing:
  "h \<in> set hs \<Longrightarrow> has_id y h \<Longrightarrow> map_of m y = None \<Longrightarrow> \<exists>e. merge_items m hs acc = Inl e"
proof (induction hs arbitrary: acc)
  case Nil
  then show ?case by simp
next
  case (Cons a hs)
  show ?case
  proof (cases "a = h")
    case True
    with Cons.prems show ?thesis by (simp add: has_id_def getitem_def hash_key_def)
  next
    case False
    with Cons.prems have "h \<in> set hs" by simp
    from Cons.IH [OF this Cons.prems(2,3)] show ?thesis
      by (auto split: sum.splits option.splits)
  qed
qed

lemma merge_items_error:
  "merge_items m hs acc = Inl e \<Longrightarrow> \<forall>h \<in> set hs. \<exists>k. has_id k h \<Longrightarrow>
   \<exists>k. e = KeyError k \<and> map_of m k = None \<and> (\<exists>h \<in> set hs. has_id k h)"
proof (induction hs arbitrary: acc)
  case Nil
  then show ?case by simp
next
  case (Cons a hs)
  from Cons.prems(2) obtain k where k: "has_id k a" by auto
  then have g: "getitem a ''id'' = Inr (Str k)" "hash_key (Str k) = Inr k"
    by (simp_all add: has_id_def getitem_def hash_key_def)
  show ?case
  proof (cases "map_of m k")
    case None
    with Cons.prems(1) g k show ?thesis by auto
  next
    case (Some entry)
    with Cons.prems(1) g have "merge_items m hs (AList.update k (dict_kw a entry) acc) = Inl e"
      by simp
    from Cons.IH [OF this] Cons.prems(2) show ?thesis by auto
  qed
qed

lemma manifest_cached: "manifest_cache s = Some m \<Longrightarrow> manifest x cfg s = (Inr m, s)"
  by (simp add: manifest_def cached_property_def)

lemma manifest_uncached:
  assumes "manifest_cache s = None"
  shows "manifest x cfg s =
     (case require_created x cfg s of
        (Inl e, t) \<Rightarrow> (Inl e, t)
      | (Inr _, t) \<Rightarrow>
          if [sha cfg] \<in> fs t then
            (case ext_load_manifest x [sha cfg] (fs t) of
               Inl e \<Rightarrow> (Inl e, t)
             | Inr entries \<Rightarrow>
                 (case manifest_items entries [] of
                    Inl e \<Rightarrow> (Inl e, t)
                  | Inr m \<Rightarrow> (Inr m, t\<lparr>manifest_cache := Some m\<rparr>)))
          else (Inl (OSError ''chdir''), t))"
proof -
  note defs = manifest_def cached_property_def in_checkout_def in_hooks_workspace_def
      local_cwd_def then_do_def load_manifest_def ret_def
  obtain r1 t1 where c: "require_created x cfg s = (r1, t1)"
    by (cases "require_created x cfg s")
  show ?thesis
  proof (cases r1)
    case (Inl e)
    with c assms show ?thesis by (simp add: defs)
  next
    case (Inr u)
    show ?thesis
    proof (cases "[sha cfg] \<in> fs t1")
      case False
      with c Inr assms show ?thesis by (simp add: defs)
    next
      case True
      show ?thesis
      proof (cases "ext_load_manifest x [sha cfg] (fs t1)")
        case (Inl e)
        with c Inr True assms show ?thesis by (simp add: defs)
      next
        case entries: (Inr entries)
        show ?thesis
        proof (cases "manifest_items entries []")
          case (Inl e)
          with c Inr True entries assms show ?thesis by (simp add: defs)
        next
          case m: (Inr m)
          with c Inr True entries assms show ?thesis by (simp add: defs)
        qed
      qed
    qed
  qed
qed

lemma manifest_frame:
  assumes "manifest x cfg s = (r, t)"
  shows "(\<exists>evs \<in> fetch_log cfg. calls t = calls s @ evs) \<and> installed t = installed s
    \<and> hooks_cache t = hooks_cache s \<and> languages_cache t = languages_cache s
    \<and> (created s \<longrightarrow> created t)
    \<and> (case r of Inr m \<Rightarrow> manifest_cache t = Some m | Inl e \<Rightarrow> manifest_cache t = manifest_cache s)"
proof (cases "manifest_cache s")
  case (Some m)
  with assms show ?thesis by (auto simp: manifest_cached fetch_log_def)
next
  case None
  obtain r1 t1 where c: "require_created x cfg s = (r1, t1)" by (cases "require_created x cfg s")
  note f = require_created_frame [OF c]
  note u = manifest_uncached [OF None, of x cfg]
  have "(\<exists>e. r = Inl e \<and> t = t1)
      \<or> (\<exists>m. r = Inr m \<and> t = t1\<lparr>manifest_cache := Some m\<rparr>)"
  proof (cases r1)
    case (Inl e)
    with c have "manifest x cfg s = (Inl e, t1)" unfolding u by simp
    with assms have "r = Inl e" "t = t1" by simp_all
    then show ?thesis by blast
  next
    case (Inr v)
    show ?thesis
    proof (cases "[sha cfg] \<in> fs t1")
      case False
      with c Inr have "manifest x cfg s = (Inl (OSError ''chdir''), t1)" unfolding u by simp
      with assms have "r = Inl (OSError ''chdir'')" "t = t1" by simp_all
      then show ?thesis by blast
    next
      case True
      show ?thesis
      proof (cases "ext_load_manifest x [sha cfg] (fs t1)")
        case (Inl e)
        with c Inr True have "manifest x cfg s = (Inl e, t1)" unfolding u by simp
        with assms have "r = Inl e" "t = t1" by simp_all
        then show ?thesis by blast
      next
        case entries: (Inr entries)
        show ?thesis
        proof (cases "manifest_items entries []")
          case (Inl e)
          with c Inr True entries have "manifest x cfg s = (Inl e, t1)" unfolding u by simp
          with assms have "r = Inl e" "t = t1" by simp_all
          then show ?thesis by blast
        next
          case m: (Inr m)
          with c Inr True entries
          have "manifest x cfg s = (Inr m, t1\<lparr>manifest_cache := Some m\<rparr>)"
            unfolding u by simp
          with assms have "r = Inr m" "t = t1\<lparr>manifest_cache := Some m\<rparr>" by simp_all
          then show ?thesis by blast
        qed
      qed
    qed
  qed
  then show ?thesis
  proof
    assume "\<exists>e. r = Inl e \<and> t = t1"
    with f show ?thesis by auto
  next
    assume "\<exists>m. r = Inr m \<and> t = t1\<lparr>manifest_cache := Some m\<rparr>"
    then obtain m where "r = Inr m" "t = t1\<lparr>manifest_cache := Some m\<rparr>" by blast
    with f show ?thesis by simp
  qed
qed

lemma manifest_ok_cached: "manifest x cfg s = (Inr m, t) \<Longrightarrow> manifest_cache t = Some m"
  using manifest_frame [of x cfg s "Inr m" t] by simp

lemma hooks_items_cached:
  "manifest_cache s = Some m \<Longrightarrow> hooks_items x cfg hs acc s = (merge_items m hs acc, s)"
  by (induction hs arbitrary: acc)
     (auto simp: manifest_cached split: sum.splits option.splits)

lemma hooks_items_unfold:
  "hooks_items x cfg hs acc s =
     (case hs of
        [] \<Rightarrow> (Inr acc, s)
      | h # _ \<Rightarrow>
          (case getitem h ''id'' of
             Inl e \<Rightarrow> (Inl e, s)
           | Inr _ \<Rightarrow>
               (case manifest x cfg s of
                  (Inl e, s') \<Rightarrow> (Inl e, s')
                | (Inr m, s') \<Rightarrow> (merge_items m hs acc, s'))))"
proof (cases hs)
  case Nil
  then show ?thesis by simp
next
  case (Cons h rest)
  show ?thesis
    unfolding Cons
    by (auto split: sum.splits option.splits prod.splits
        dest!: manifest_ok_cached simp: hooks_items_cached)
qed

lemma hooks_items_frame:
  assumes "hooks_items x cfg hs acc s = (r, t)"
  shows "(\<exists>evs \<in> fetch_log cfg. calls t = calls s @ evs) \<and> installed t = installed s
    \<and> hooks_cache t = hooks_cache s \<and> languages_cache t = languages_cache s
    \<and> (created s \<longrightarrow> created t)"
proof -
  obtain r1 t1 where m: "manifest x cfg s = (r1, t1)" by (cases "manifest x cfg s")
  from manifest_frame [OF m] assms m show ?thesis
    unfolding hooks_items_unfold [of x cfg hs acc s]
    by (auto split: list.splits sum.splits simp: fetch_log_def)
qed

lemma hooks_cached: "hooks_cache s = Some hs \<Longrightarrow> hooks x cfg s = (Inr hs, s)"
  by (simp add: hooks_def cached_property_def)

lemma hooks_uncached:
  "hooks_cache s = None \<Longrightarrow>
   hooks x cfg s =
     (case hooks_items x cfg (cfg_hooks cfg) [] s of
        (Inl e, t) \<Rightarrow> (Inl e, t)
      | (Inr hs, t) \<Rightarrow> (Inr hs, t\<lparr>hooks_cache := Some hs\<rparr>))"
  by (simp add: hooks_def cached_property_def then_do_def)

lemma hooks_frame:
  assumes "hooks x cfg s = (r, t)"
  shows "(\<exists>evs \<in> fetch_log cfg. calls t = calls s @ evs) \<and> installed t = installed s
    \<and> languages_cache t = languages_cache s \<and> (created s \<longrightarrow> created t)
    \<and> (case r of Inr hs \<Rightarrow> hooks_cache t = Some hs | Inl e \<Rightarrow> hooks_cache t = hooks_cache s)"
proof (cases "hooks_cache s")
  case (Some hs)
  with assms show ?thesis by (auto simp: hooks_cached fetch_log_def)
next
  case None
  obtain r1 t1 where h: "hooks_items x cfg (cfg_hooks cfg) [] s = (r1, t1)"
    by (cases "hooks_items x cfg (cfg_hooks cfg) [] s")
  from hooks_items_frame [OF h] assms None h show ?thesis
    by (auto simp: hooks_uncached split: sum.splits)
qed

text \<open>What a computed \<open>hooks\<close> value is, in terms of the manifest that was loaded.\<close>

lemma hooks_result:
  assumes "hooks_cache s = None" and "hooks x cfg s = (Inr hs, t)"
  shows "cfg_hooks cfg = [] \<and> hs = [] \<or>
    (\<exists>m. manifest_cache t = Some m \<and> merge_items m (cfg_hooks cfg) [] = Inr hs)"
proof -
  obtain r1 t1 where m: "manifest x cfg s = (r1, t1)" by (cases "manifest x cfg s")
  from assms m manifest_frame [OF m] show ?thesis
    unfolding hooks_uncached [OF assms(1)] hooks_items_unfold [of x cfg "cfg_hooks cfg" "[]" s]
    by (auto split: list.splits sum.splits)
qed

subsection \<open>Failure and repetition of the fetch\<close>

lemma rmtree_removed: "q \<in> rmtree p f \<Longrightarrow> \<not> prefix p q"
  by (simp add: rmtree_def)

lemma rmtree_self: "p \<notin> rmtree p f"
  by (simp add: rmtree_def)

lemma create_failure_cleans:
  assumes "create x cfg s = (Inl e, t)"
  shows "[sha cfg] \<notin> fs t \<and> (\<forall>q \<in> fs t. \<not> prefix [sha cfg] q)"
proof (cases "[sha cfg] \<in> fs s")
  case True
  with assms show ?thesis by (simp add: create_exists)
next
  case False
  show ?thesis
    using assms unfolding create_absent [OF False]
    by (auto split: prod.splits sum.splits simp: rmtree_def)
qed

lemma create_ok_exists:
  assumes "create x cfg s = (Inr v, t)"
    and "\<forall>f. [sha cfg] \<in> f \<and> fst (ext_git_checkout x (sha cfg) f)
          \<longrightarrow> [sha cfg] \<in> snd (ext_git_checkout x (sha cfg) f)"
  shows "[sha cfg] \<in> fs t"
proof (cases "[sha cfg] \<in> fs s")
  case True
  with assms show ?thesis by (simp add: create_exists)
next
  case False
  obtain r1 s1 where c: "git_clone x (repo_url cfg) (sha cfg) s = (r1, s1)"
    by (cases "git_clone x (repo_url cfg) (sha cfg) s")
  with assms(1) False obtain v1 where r1: "r1 = Inr v1"
    unfolding create_absent [OF False] by (cases r1) auto
  from c r1 have in1: "[sha cfg] \<in> fs (s1\<lparr>created := True\<rparr>)"
    by (auto dest: git_clone_creates)
  from assms(1) c r1 have "git_checkout x (sha cfg) (s1\<lparr>created := True\<rparr>) = (Inr v, t)"
    unfolding create_absent [OF False] by (auto split: prod.splits sum.splits)
  with in1 assms(2) show ?thesis
    by (auto simp: git_checkout_def Let_def split: prod.splits if_splits)
qed

lemma times_create_log:
  assumes "\<forall>f. [sha cfg] \<in> f \<and> fst (ext_git_checkout x (sha cfg) f)
          \<longrightarrow> [sha cfg] \<in> snd (ext_git_checkout x (sha cfg) f)"
  shows "\<exists>evs \<in> fetch_log cfg. calls (snd (repeatedly n (create x cfg) s)) = calls s @ evs"
proof (cases n)
  case 0
  then show ?thesis by (simp add: fetch_log_def)
next
  case (Suc k)
  obtain r t where c: "create x cfg s = (r, t)" by (cases "create x cfg s")
  show ?thesis
  proof (cases r)
    case (Inl e)
    with c Suc create_frame [OF c] show ?thesis by simp
  next
    case (Inr v)
    with c assms have "[sha cfg] \<in> fs t" by (auto dest: create_ok_exists)
    then have "repeatedly k (create x cfg) t = (Inr (), t)" by (rule times_create_exists)
    with c Inr Suc create_frame [OF c] show ?thesis by simp
  qed
qed

lemma times_require_created_ok:
  "repeatedly n (require_created x cfg) s = (Inr (), t) \<Longrightarrow> 0 < n \<Longrightarrow> created t"
proof (cases n)
  case 0
  assume "0 < n" with 0 show ?thesis by simp
next
  case (Suc k)
  assume a: "repeatedly n (require_created x cfg) s = (Inr (), t)"
  obtain r t1 where c: "require_created x cfg s = (r, t1)" by (cases "require_created x cfg s")
  with a Suc obtain v where r: "r = Inr v" by (cases r) auto
  with c have ct: "created t1" by (simp add: require_created_ok)
  then have "repeatedly k (require_created x cfg) t1 = (Inr (), t1)"
    by (rule times_require_created_created)
  with a c r Suc ct show ?thesis by simp
qed

subsection \<open>Installation\<close>

lemma manifest_created:
  assumes "created s" and "manifest x cfg s = (r, t)"
  shows "calls t = calls s \<and> fs t = fs s \<and> created t"
proof (cases "manifest_cache s")
  case (Some m)
  with assms show ?thesis by (simp add: manifest_cached)
next
  case None
  from assms(2) show ?thesis
    unfolding manifest_uncached [OF None] require_created_created [OF assms(1)]
    using assms(1) by (auto split: sum.splits if_splits)
qed

lemma hooks_items_created:
  assumes "created s" and "hooks_items x cfg hs acc s = (r, t)"
  shows "calls t = calls s \<and> fs t = fs s \<and> created t"
proof (cases hs)
  case Nil
  with assms show ?thesis by simp
next
  case (Cons h rest)
  obtain r1 t1 where m: "manifest x cfg s = (r1, t1)" by (cases "manifest x cfg s")
  note mc = manifest_created [OF assms(1) m]
  show ?thesis
  proof (cases "getitem h ''id''")
    case (Inl e)
    with assms(2) [unfolded hooks_items_unfold [of x cfg hs acc s]] assms(1) Cons
    show ?thesis by auto
  next
    case (Inr v)
    with assms(2) [unfolded hooks_items_unfold [of x cfg hs acc s]] Cons m have "t = t1"
      by (cases r1) simp_all
    with mc show ?thesis by simp
  qed
qed

lemma hooks_created:
  assumes "created s" and "hooks x cfg s = (r, t)"
  shows "calls t = calls s \<and> fs t = fs s \<and> created t"
proof (cases "hooks_cache s")
  case (Some hs)
  with assms show ?thesis by (simp add: hooks_cached)
next
  case None
  obtain r1 t1 where h: "hooks_items x cfg (cfg_hooks cfg) [] s = (r1, t1)"
    by (cases "hooks_items x cfg (cfg_hooks cfg) [] s")
  note hc = hooks_items_created [OF assms(1) h]
  show ?thesis
  proof (cases r1)
    case (Inl e)
    with assms(2) None h have "t = t1" by (simp add: hooks_uncached)
    with hc show ?thesis by simp
  next
    case (Inr hs)
    with assms(2) None h have "t = t1\<lparr>hooks_cache := Some hs\<rparr>"
      by (simp add: hooks_uncached)
    with hc show ?thesis by simp
  qed
qed

lemma language_set_distinct:
  "language_set hs acc = Inr ls \<Longrightarrow> distinct acc \<Longrightarrow> distinct ls"
  by (induction hs arbitrary: acc) (auto split: sum.splits if_splits)

lemma languages_cached: "languages_cache s = Some ls \<Longrightarrow> languages x cfg s = (Inr ls, s)"
  by (simp add: languages_def cached_property_def)

lemma languages_uncached:
  "languages_cache s = None \<Longrightarrow>
   languages x cfg s =
     (case hooks x cfg s of
        (Inl e, t) \<Rightarrow> (Inl e, t)
      | (Inr hs, t) \<Rightarrow>
          (case language_set (map snd hs) [] of
             Inl e \<Rightarrow> (Inl e, t)
           | Inr ls \<Rightarrow> (Inr ls, t\<lparr>languages_cache := Some ls\<rparr>)))"
  by (simp add: languages_def cached_property_def then_do_def ret_def split: sum.splits prod.splits)

lemma languages_frame:
  assumes "languages x cfg s = (r, t)"
  shows "installed t = installed s \<and> (created s \<longrightarrow> calls t = calls s \<and> fs t = fs s \<and> created t)
    \<and> (case r of
          Inr ls \<Rightarrow> languages_cache t = Some ls \<and> (languages_cache s = None \<longrightarrow> distinct ls)
        | Inl e \<Rightarrow> languages_cache t = languages_cache s)"
proof (cases "languages_cache s")
  case (Some ls)
  with assms show ?thesis by (auto simp: languages_cached)
next
  case None
  obtain r1 t1 where h: "hooks x cfg s = (r1, t1)" by (cases "hooks x cfg s")
  from hooks_frame [OF h] have hf: "installed t1 = installed s" "languages_cache t1 = languages_cache s"
    by simp_all
  have hc: "created s \<longrightarrow> calls t1 = calls s \<and> fs t1 = fs s \<and> created t1"
    using hooks_created [OF _ h] by blast
  show ?thesis
  proof (cases r1)
    case (Inl e)
    with assms None h have "r = Inl e" "t = t1" by (simp_all add: languages_uncached)
    with hf hc show ?thesis by simp
  next
    case (Inr hs)
    show ?thesis
    proof (cases "language_set (map snd hs) []")
      case (Inl e)
      with assms None h Inr have "r = Inl e" "t = t1" by (simp_all add: languages_uncached)
      with hf hc show ?thesis by simp
    next
      case ls: (Inr ls)
      with assms None h Inr have "r = Inr ls" "t = t1\<lparr>languages_cache := Some ls\<rparr>"
        by (simp_all add: languages_uncached)
      moreover from ls have "distinct ls" by (rule language_set_distinct) simp
      ultimately show ?thesis using hf hc by simp
    qed
  qed
qed

lemma call_install_environment_frame:
  "call_install_environment b l r s = (res, t) \<Longrightarrow>
   calls t = calls s @ [InstallEnvironment l r] \<and> created t = created s
   \<and> installed t = installed s \<and> manifest_cache t = manifest_cache s
   \<and> hooks_cache t = hooks_cache s \<and> languages_cache t = languages_cache s"
  by (auto simp: call_install_environment_def split: prod.splits)

lemma install_language_frame:
  assumes "install_language x r l s = (res, t)"
  shows "created t = created s \<and> installed t = installed s \<and> manifest_cache t = manifest_cache s
    \<and> hooks_cache t = hooks_cache s \<and> languages_cache t = languages_cache s
    \<and> (calls t = calls s \<or>
        calls t = calls s @ [InstallEnvironment l r]
        \<and> (\<exists>b d. ext_languages x l = Some b \<and> ENVIRONMENT_DIR b = Some d
              \<and> \<not> cmd_exists r d (fs s)))"
  using assms
  by (auto simp: install_language_def split: option.splits if_splits
      dest!: call_install_environment_frame)

lemma install_loop_frame:
  "install_loop x r ls s = (res, t) \<Longrightarrow>
   created t = created s \<and> installed t = installed s \<and> manifest_cache t = manifest_cache s
   \<and> hooks_cache t = hooks_cache s \<and> languages_cache t = languages_cache s
   \<and> (\<exists>names. calls t = calls s @ map (\<lambda>l. InstallEnvironment l r) names
         \<and> subseq names ls
         \<and> (\<forall>l \<in> set names. \<exists>b d. ext_languages x l = Some b \<and> ENVIRONMENT_DIR b = Some d))"
proof (induction ls arbitrary: s)
  case Nil
  then show ?case by simp
next
  case (Cons l ls)
  obtain r1 s1 where st: "install_language x r l s = (r1, s1)"
    by (cases "install_language x r l s")
  note f = install_language_frame [OF st]
  show ?case
  proof (cases r1)
    case (Inl e)
    with Cons.prems st have ts: "t = s1" by simp
    from f have "calls s1 = calls s @ map (\<lambda>l. InstallEnvironment l r) []
        \<or> calls s1 = calls s @ map (\<lambda>l. InstallEnvironment l r) [l]
          \<and> (\<exists>b d. ext_languages x l = Some b \<and> ENVIRONMENT_DIR b = Some d)"
      by auto
    then show ?thesis
    proof
      assume "calls s1 = calls s @ map (\<lambda>l. InstallEnvironment l r) []"
      with f ts show ?thesis by (intro conjI exI [of _ "[]"]) simp_all
    next
      assume "calls s1 = calls s @ map (\<lambda>l. InstallEnvironment l r) [l]
          \<and> (\<exists>b d. ext_languages x l = Some b \<and> ENVIRONMENT_DIR b = Some d)"
      with f ts show ?thesis by (intro conjI exI [of _ "[l]"]) simp_all
    qed
  next
    case (Inr v)
    with Cons.prems st have rest: "install_loop x r ls s1 = (res, t)" by simp
    from Cons.IH [OF rest] obtain names where
      n: "calls t = calls s1 @ map (\<lambda>l. InstallEnvironment l r) names" "subseq names ls"
        "\<forall>l \<in> set names. \<exists>b d. ext_languages x l = Some b \<and> ENVIRONMENT_DIR b = Some d"
      and fl: "created t = created s1" "installed t = installed s1"
        "manifest_cache t = manifest_cache s1" "hooks_cache t = hooks_cache s1"
        "languages_cache t = languages_cache s1"
      by auto
    from f have "calls s1 = calls s
        \<or> calls s1 = calls s @ [InstallEnvironment l r]
          \<and> (\<exists>b d. ext_languages x l = Some b \<and> ENVIRONMENT_DIR b = Some d)"
      by auto
    then show ?thesis
    proof
      assume c: "calls s1 = calls s"
      from n(2) have "subseq names (l # ls)" by (rule list_emb_Cons)
      with c n f fl show ?thesis
        by (intro conjI exI [of _ names]) simp_all
    next
      assume "calls s1 = calls s @ [InstallEnvironment l r]
          \<and> (\<exists>b d. ext_languages x l = Some b \<and> ENVIRONMENT_DIR b = Some d)"
      with n f fl show ?thesis
        by (intro conjI exI [of _ "l # names"]) simp_all
    qed
  qed
qed

lemma subseq_distinct: "subseq xs ys \<Longrightarrow> distinct ys \<Longrightarrow> distinct xs"
  by (induction rule: list_emb.induct) (auto dest: list_emb_set)

lemma filter_is_run_fetch_log: "evs \<in> fetch_log cfg \<Longrightarrow> filter is_run evs = []"
  by (auto simp: fetch_log_def)

lemma filter_is_run_installs: "filter is_run (map (\<lambda>l. InstallEnvironment l r) names) = []"
  by (induction names) simp_all

lemma hooks_no_run:
  assumes "hooks x cfg s = (r, t)"
  shows "filter is_run (calls t) = filter is_run (calls s)"
proof -
  from hooks_frame [OF assms] obtain evs where
    "evs \<in> fetch_log cfg" "calls t = calls s @ evs" by auto
  then show ?thesis by (simp add: filter_is_run_fetch_log)
qed

lemma install_frame:
  assumes "install x cfg cr s = (res, t)"
  shows "installed t = installed s \<and> (res = Inr () \<longrightarrow> created t)
    \<and> (\<exists>evs \<in> fetch_log cfg. \<exists>names.
          calls t = calls s @ evs @ map (\<lambda>l. InstallEnvironment l (get_cmd_runner cfg cr)) names
          \<and> ((\<forall>ls. languages_cache s = Some ls \<longrightarrow> distinct ls) \<longrightarrow> distinct names)
          \<and> (names = [] \<or> (\<exists>ls. languages_cache t = Some ls \<and> subseq names (set_iter x ls)))
          \<and> (\<forall>l \<in> set names. \<exists>b d. ext_languages x l = Some b \<and> ENVIRONMENT_DIR b = Some d))"
proof -
  let ?r = "get_cmd_runner cfg cr"
  obtain r1 s1 where c: "require_created x cfg s = (r1, s1)"
    by (cases "require_created x cfg s")
  from require_created_frame [OF c] obtain evs where
    evs: "evs \<in> fetch_log cfg" "calls s1 = calls s @ evs"
    and f1: "installed s1 = installed s" "languages_cache s1 = languages_cache s"
    by auto
  show ?thesis
  proof (cases r1)
    case (Inl e)
    with assms(1) c have "res = Inl e" "t = s1" by (simp_all add: install_def then_do_def)
    with evs f1 show ?thesis
      by (intro conjI bexI [of _ evs] exI [of _ "[]"]) simp_all
  next
    case (Inr u)
    with c have c1: "created s1" by (simp add: require_created_ok)
    obtain r2 s2 where l: "languages x cfg s1 = (r2, s2)" by (cases "languages x cfg s1")
    from languages_frame [OF l] c1 have
      f2: "installed s2 = installed s1" "calls s2 = calls s1" "created s2"
      by simp_all
    show ?thesis
    proof (cases r2)
      case (Inl e)
      with assms(1) c Inr l have "res = Inl e" "t = s2"
        by (simp_all add: install_def then_do_def)
      with evs f1 f2 show ?thesis
        by (intro conjI bexI [of _ evs] exI [of _ "[]"]) simp_all
    next
      case ls: (Inr ls)
      with languages_frame [OF l] have lc: "languages_cache s2 = Some ls"
        and d0: "languages_cache s1 = None \<longrightarrow> distinct ls" by simp_all
      have d: "(\<forall>ls. languages_cache s = Some ls \<longrightarrow> distinct ls) \<longrightarrow> distinct ls"
      proof (cases "languages_cache s1")
        case None
        with d0 show ?thesis by simp
      next
        case (Some ls')
        with l ls have "ls' = ls" by (simp add: languages_cached)
        with Some f1 show ?thesis by simp
      qed
      from assms(1) c Inr l ls have il: "install_loop x ?r (set_iter x ls) s2 = (res, t)"
        by (simp add: install_def then_do_def)
      from install_loop_frame [OF il] obtain names where
        n: "calls t = calls s2 @ map (\<lambda>l. InstallEnvironment l ?r) names"
          "subseq names (set_iter x ls)"
          "\<forall>l \<in> set names. \<exists>b d. ext_languages x l = Some b \<and> ENVIRONMENT_DIR b = Some d"
        and f3: "created t = created s2" "installed t = installed s2"
          "languages_cache t = languages_cache s2"
        by auto
      from n(2) d
      have dn: "(\<forall>ls. languages_cache s = Some ls \<longrightarrow> distinct ls) \<longrightarrow> distinct names"
        by (auto intro: subseq_distinct simp: set_iter_def)
      from n evs f1 f2 f3 lc dn show ?thesis
        by (intro conjI bexI [of _ evs] exI [of _ names]) auto
    qed
  qed
qed

lemma install_no_run:
  assumes "install x cfg cr s = (res, t)"
  shows "filter is_run (calls t) = filter is_run (calls s)"
proof -
  from install_frame [OF assms] obtain evs names where
    "evs \<in> fetch_log cfg"
    "calls t = calls s @ evs @ map (\<lambda>l. InstallEnvironment l (get_cmd_runner cfg cr)) names"
    by blast
  then show ?thesis by (simp add: filter_is_run_fetch_log filter_is_run_installs)
qed

lemma require_installed_installed:
  "installed s \<Longrightarrow> require_installed x cfg cr s = (Inr (), s)"
  by (simp add: require_installed_def)

lemma require_installed_uninstalled:
  "\<not> installed s \<Longrightarrow>
   require_installed x cfg cr s =
     (case install x cfg cr s of
        (Inl e, t) \<Rightarrow> (Inl e, t)
      | (Inr _, t) \<Rightarrow> (Inr (), t\<lparr>installed := True\<rparr>))"
  by (simp add: require_installed_def then_do_def)

lemma install_loop_append_failure:
  "install_loop x r pre s = (Inr (), u) \<Longrightarrow> install_language x r l u = (Inl e, u') \<Longrightarrow>
   install_loop x r (pre @ l # post) s = (Inl e, u')"
  by (induction pre arbitrary: s) (auto split: prod.splits sum.splits)

lemma run_hook_unfold:
  assumes "require_installed x cfg cr s = (Inr (), s1)" and "hooks x cfg s1 = (Inr hs, s2)"
  shows "run_hook x cfg cr hook_id file_args s =
     (case map_of hs hook_id of
        None \<Rightarrow> (Inl (KeyError hook_id), s2)
      | Some hook \<Rightarrow>
          (case getitem hook ''language'' of
             Inl e \<Rightarrow> (Inl e, s2)
           | Inr v \<Rightarrow>
               (case hash_key v of
                  Inl e \<Rightarrow> (Inl e, s2)
                | Inr l \<Rightarrow>
                    (case ext_languages x l of
                       None \<Rightarrow> (Inl (KeyError l), s2)
                     | Some language \<Rightarrow>
                         call_run_hook language l (get_cmd_runner cfg cr) hook file_args s2))))"
  using assms
  by (simp add: run_hook_def then_do_def ret_def split: option.splits sum.splits)

lemma require_installed_no_run:
  assumes "require_installed x cfg cr s = (res, t)"
  shows "filter is_run (calls t) = filter is_run (calls s)"
proof (cases "installed s")
  case True
  with assms show ?thesis by (simp add: require_installed_installed)
next
  case False
  obtain r1 t1 where i: "install x cfg cr s = (r1, t1)" by (cases "install x cfg cr s")
  from install_no_run [OF i] assms False i show ?thesis
    by (cases r1) (auto simp: require_installed_uninstalled)
qed

lemma require_installed_ok:
  assumes "require_installed x cfg cr s = (Inr v, t)"
  shows "installed t \<and> (\<not> installed s \<longrightarrow> created t)
    \<and> (\<exists>evs \<in> fetch_log cfg. \<exists>names.
          calls t = calls s @ evs @ map (\<lambda>l. InstallEnvironment l (get_cmd_runner cfg cr)) names)"
proof (cases "installed s")
  case True
  with assms have "t = s" by (simp add: require_installed_installed)
  with True show ?thesis
    by (intro conjI bexI [of _ "[]"] exI [of _ "[]"]) (simp_all add: fetch_log_def)
next
  case False
  obtain r1 t1 where i: "install x cfg cr s = (r1, t1)" by (cases "install x cfg cr s")
  with assms False obtain u where r1: "r1 = Inr u" and t: "t = t1\<lparr>installed := True\<rparr>"
    by (cases r1) (auto simp: require_installed_uninstalled)
  from install_frame [OF i] r1 obtain evs names where
    "created t1" "evs \<in> fetch_log cfg"
    "calls t1 = calls s @ evs @ map (\<lambda>l. InstallEnvironment l (get_cmd_runner cfg cr)) names"
    by auto
  with t show ?thesis
    by (intro conjI bexI [of _ evs] exI [of _ names]) simp_all
qed

lemma require_created_clones:
  assumes "\<not> created s" and "[sha cfg] \<notin> fs s" and "require_created x cfg s = (r, t)"
  shows "\<exists>rest. calls t = calls s @ GitClone (repo_url cfg) (sha cfg) # rest"
proof -
  obtain r0 t0 where c0: "create x cfg s = (r0, t0)" by (cases "create x cfg s")
  from assms(1,3) c0 have tt: "calls t = calls t0"
    by (cases r0) (auto simp: require_created.simps then_do_def)
  obtain r1 s1 where c: "git_clone x (repo_url cfg) (sha cfg) s = (r1, s1)"
    by (cases "git_clone x (repo_url cfg) (sha cfg) s")
  note gc = git_clone_calls [OF c]
  have "\<exists>rest. calls t0 = calls s @ GitClone (repo_url cfg) (sha cfg) # rest"
  proof (cases r1)
    case (Inl e)
    with c0 c have "t0 = s1\<lparr>fs := rmtree [sha cfg] (fs s1)\<rparr>"
      unfolding create_absent [OF assms(2)] by simp
    with gc show ?thesis by simp
  next
    case (Inr u)
    obtain r2 s2 where k: "git_checkout x (sha cfg) (s1\<lparr>created := True\<rparr>) = (r2, s2)"
      by (cases "git_checkout x (sha cfg) (s1\<lparr>created := True\<rparr>)")
    note gk = git_checkout_calls [OF k]
    from c0 c Inr k have "calls t0 = calls s2"
      unfolding create_absent [OF assms(2)] by (cases r2) auto
    with gc gk show ?thesis by simp
  qed
  with tt show ?thesis by simp
qed

lemma install_after_created:
  assumes "require_created x cfg s = (Inr (), s1)"
  shows "install x cfg cr s = install x cfg cr s1"
proof -
  from assms have "created s1" by (rule require_created_ok)
  then have "require_created x cfg s1 = (Inr (), s1)" by (rule require_created_created)
  with assms show ?thesis by (simp add: install_def then_do_def)
qed

lemma install_clones:
  assumes "\<not> created s" and "[sha cfg] \<notin> fs s" and "install x cfg cr s = (Inr v, t)"
  shows "\<exists>rest. calls t = calls s @ GitClone (repo_url cfg) (sha cfg) # rest"
proof -
  obtain r1 c1 where c: "require_created x cfg s = (r1, c1)"
    by (cases "require_created x cfg s")
  from assms(3) c have r1: "r1 = Inr ()"
    by (cases r1) (auto simp: install_def then_do_def)
  from require_created_clones [OF assms(1,2) c] obtain rest where
    rest: "calls c1 = calls s @ GitClone (repo_url cfg) (sha cfg) # rest" by blast
  from c r1 have "install x cfg cr s = install x cfg cr c1"
    by (simp add: install_after_created)
  with assms(3) have i: "install x cfg cr c1 = (Inr v, t)" by simp
  from install_frame [OF i] obtain more where "calls t = calls c1 @ more" by auto
  with rest show ?thesis by simp
qed

lemma install_loop_append:
  "install_loop x r (pre @ post) s =
     (case install_loop x r pre s of
        (Inl e, u) \<Rightarrow> (Inl e, u)
      | (Inr _, u) \<Rightarrow> install_loop x r post u)"
  by (induction pre arbitrary: s) (auto split: prod.splits sum.splits)

lemma install_calls_other:
  "l \<notin> set names \<Longrightarrow> install_calls l r (map (\<lambda>l. InstallEnvironment l r') names) = 0"
  by (induction names) (auto simp: install_calls_def)

lemma install_loop_other:
  assumes "install_loop x r ls s = (res, t)" and "l \<notin> set ls"
  shows "\<exists>evs. calls t = calls s @ evs \<and> install_calls l r evs = 0"
proof -
  from install_loop_frame [OF assms(1)] obtain names where
    n: "calls t = calls s @ map (\<lambda>l. InstallEnvironment l r) names" "subseq names ls"
    by blast
  from n(2) assms(2) have "l \<notin> set names" by (auto dest: list_emb_set)
  with n(1) show ?thesis by (auto simp: install_calls_other)
qed

lemma install_calls_append:
  "install_calls l r (xs @ ys) = install_calls l r xs + install_calls l r ys"
  by (simp add: install_calls_def)

lemma set_iter_set: "set (set_iter x ls) = set ls"
  by (simp add: set_iter_def)

lemma set_iter_distinct: "distinct (set_iter x ls) = distinct ls"
  by (simp add: set_iter_def)

lemma install_calls_fetch_log: "evs \<in> fetch_log cfg \<Longrightarrow> install_calls l r evs = 0"
  by (auto simp: fetch_log_def install_calls_def)

lemma install_unfold:
  "require_created x cfg s = (Inr (), s1) \<Longrightarrow> languages x cfg s1 = (Inr ls, s2) \<Longrightarrow>
   install x cfg cr s = install_loop x (get_cmd_runner cfg cr) (set_iter x ls) s2"
  by (simp add: install_def then_do_def)

lemma install_ok_steps:
  assumes "install x cfg cr s = (Inr (), t)"
  shows "\<exists>s1 s2 ls. require_created x cfg s = (Inr (), s1) \<and> languages x cfg s1 = (Inr ls, s2)
    \<and> install_loop x (get_cmd_runner cfg cr) (set_iter x ls) s2 = (Inr (), t)"
proof -
  obtain r1 s1 where c: "require_created x cfg s = (r1, s1)"
    by (cases "require_created x cfg s")
  with assms have r1: "r1 = Inr ()" by (cases r1) (auto simp: install_def then_do_def)
  obtain r2 s2 where l: "languages x cfg s1 = (r2, s2)" by (cases "languages x cfg s1")
  with assms c r1 obtain ls where r2: "r2 = Inr ls"
    by (cases r2) (auto simp: install_def then_do_def)
  from assms c r1 l r2 have "install_loop x (get_cmd_runner cfg cr) (set_iter x ls) s2 = (Inr (), t)"
    by (simp add: install_def then_do_def)
  with c r1 l r2 show ?thesis by blast
qed

lemma install_loop_visit:
  assumes "install_loop x r (pre @ l # post) s = (Inr (), t)"
  shows "\<exists>u u'. install_loop x r pre s = (Inr (), u) \<and> install_language x r l u = (Inr (), u')
    \<and> install_loop x r post u' = (Inr (), t)"
proof -
  obtain r1 u where p: "install_loop x r pre s = (r1, u)" by (cases "install_loop x r pre s")
  with assms have r1: "r1 = Inr ()" and rest: "install_loop x r (l # post) u = (Inr (), t)"
    by (cases r1; simp add: install_loop_append)+
  obtain r2 u' where b: "install_language x r l u = (r2, u')"
    by (cases "install_language x r l u")
  with rest have r2: "r2 = Inr ()" and q: "install_loop x r post u' = (Inr (), t)"
    by (cases r2; simp)+
  from p r1 b r2 q show ?thesis by blast
qed

lemma install_language_skips:
  "ext_languages x l = Some b \<Longrightarrow> already_installed b r (fs s) \<Longrightarrow>
   install_language x r l s = (Inr (), s)"
  by (auto simp: install_language_def already_installed_def split: option.splits)

lemma install_language_invokes:
  "ext_languages x l = Some b \<Longrightarrow> \<not> already_installed b r (fs s) \<Longrightarrow>
   install_language x r l s =
     (fst (install_environment b r (fs s)),
      s\<lparr>calls := calls s @ [InstallEnvironment l r],
        fs := snd (install_environment b r (fs s))\<rparr>)"
  by (auto simp: install_language_def already_installed_def call_install_environment_def
      split: option.splits prod.splits)

lemma install_language_ok_effect:
  assumes "install_language x r l u = (Inr (), u')"
  shows "\<exists>b. ext_languages x l = Some b
    \<and> u' = (if already_installed b r (fs u) then u
            else u\<lparr>calls := calls u @ [InstallEnvironment l r],
                   fs := snd (install_environment b r (fs u))\<rparr>)
    \<and> (\<not> already_installed b r (fs u) \<longrightarrow> fst (install_environment b r (fs u)) = Inr ())"
proof -
  from assms obtain b where b: "ext_languages x l = Some b"
    by (cases "ext_languages x l") (auto simp: install_language_def)
  show ?thesis
  proof (cases "already_installed b r (fs u)")
    case True
    with assms install_language_skips [OF b True] b show ?thesis by auto
  next
    case False
    with assms install_language_invokes [OF b False] b show ?thesis by auto
  qed
qed

lemma install_exact:
  assumes "install x cfg cr s = (Inr (), t)"
    and "\<forall>ls. languages_cache s = Some ls \<longrightarrow> distinct ls"
  shows "\<exists>s1 s2 ls. require_created x cfg s = (Inr (), s1) \<and> languages x cfg s1 = (Inr ls, s2)
    \<and> install_loop x (get_cmd_runner cfg cr) (set_iter x ls) s2 = (Inr (), t)
    \<and> (\<forall>l \<in> set ls. \<exists>pre post u b evs.
          set_iter x ls = pre @ l # post
          \<and> install_loop x (get_cmd_runner cfg cr) pre s2 = (Inr (), u)
          \<and> ext_languages x l = Some b
          \<and> install_loop x (get_cmd_runner cfg cr) post
               (if already_installed b (get_cmd_runner cfg cr) (fs u) then u
                else u\<lparr>calls := calls u @ [InstallEnvironment l (get_cmd_runner cfg cr)],
                       fs := snd (install_environment b (get_cmd_runner cfg cr) (fs u))\<rparr>)
              = (Inr (), t)
          \<and> (\<not> already_installed b (get_cmd_runner cfg cr) (fs u) \<longrightarrow>
                fst (install_environment b (get_cmd_runner cfg cr) (fs u)) = Inr ())
          \<and> calls t = calls s @ evs
          \<and> install_calls l (get_cmd_runner cfg cr) evs =
              (if already_installed b (get_cmd_runner cfg cr) (fs u) then 0 else 1))"
proof -
  let ?r = "get_cmd_runner cfg cr"
  from install_ok_steps [OF assms(1)] obtain s1 s2 ls where
    c: "require_created x cfg s = (Inr (), s1)" and lg: "languages x cfg s1 = (Inr ls, s2)"
    and lp: "install_loop x ?r (set_iter x ls) s2 = (Inr (), t)"
    by blast
  from require_created_frame [OF c] obtain ev0 where
    ev0: "ev0 \<in> fetch_log cfg" "calls s1 = calls s @ ev0"
    and lc1: "languages_cache s1 = languages_cache s"
    by auto
  from c have c1: "created s1" by (rule require_created_ok)
  from languages_frame [OF lg] c1 have cs2: "calls s2 = calls s1"
    and d0: "languages_cache s1 = None \<longrightarrow> distinct ls"
    by simp_all
  have d: "distinct ls"
  proof (cases "languages_cache s1")
    case None
    with d0 show ?thesis by simp
  next
    case (Some ls')
    with lg have "ls' = ls" by (simp add: languages_cached)
    with Some lc1 assms(2) show ?thesis by simp
  qed
  have "\<exists>pre post u b evs.
          set_iter x ls = pre @ l # post
          \<and> install_loop x ?r pre s2 = (Inr (), u)
          \<and> ext_languages x l = Some b
          \<and> install_loop x ?r post
               (if already_installed b ?r (fs u) then u
                else u\<lparr>calls := calls u @ [InstallEnvironment l ?r],
                       fs := snd (install_environment b ?r (fs u))\<rparr>)
              = (Inr (), t)
          \<and> (\<not> already_installed b ?r (fs u) \<longrightarrow> fst (install_environment b ?r (fs u)) = Inr ())
          \<and> calls t = calls s @ evs
          \<and> install_calls l ?r evs = (if already_installed b ?r (fs u) then 0 else 1)"
    if l: "l \<in> set ls" for l
  proof -
    from l have "l \<in> set (set_iter x ls)" by (simp add: set_iter_set)
    then obtain pre post where sp: "set_iter x ls = pre @ l # post"
      by (auto dest: split_list)
    from d have "distinct (pre @ l # post)" by (simp add: set_iter_distinct flip: sp)
    then have np: "l \<notin> set pre" and nq: "l \<notin> set post" by auto
    from install_loop_visit [OF lp [unfolded sp]] obtain u u' where
      p: "install_loop x ?r pre s2 = (Inr (), u)"
      and b: "install_language x ?r l u = (Inr (), u')"
      and q: "install_loop x ?r post u' = (Inr (), t)"
      by blast
    from install_language_ok_effect [OF b] obtain bk where
      bk: "ext_languages x l = Some bk"
      and u': "u' = (if already_installed bk ?r (fs u) then u
            else u\<lparr>calls := calls u @ [InstallEnvironment l ?r],
                   fs := snd (install_environment bk ?r (fs u))\<rparr>)"
      and ok: "\<not> already_installed bk ?r (fs u) \<longrightarrow> fst (install_environment bk ?r (fs u)) = Inr ()"
      by blast
    from install_loop_other [OF p np] obtain e1 where
      e1: "calls u = calls s2 @ e1" "install_calls l ?r e1 = 0" by blast
    from install_loop_other [OF q nq] obtain e3 where
      e3: "calls t = calls u' @ e3" "install_calls l ?r e3 = 0" by blast
    let ?e2 = "if already_installed bk ?r (fs u) then [] else [InstallEnvironment l ?r]"
    from u' have e2: "calls u' = calls u @ ?e2" by simp
    have c2: "install_calls l ?r ?e2 = (if already_installed bk ?r (fs u) then 0 else 1)"
      by (simp add: install_calls_def)
    from ev0 cs2 e1 e2 e3 have ct: "calls t = calls s @ (ev0 @ e1 @ ?e2 @ e3)" by simp
    from ev0(1) e1(2) e3(2) c2
    have cnt: "install_calls l ?r (ev0 @ e1 @ ?e2 @ e3)
        = (if already_installed bk ?r (fs u) then 0 else 1)"
      by (simp add: install_calls_append install_calls_fetch_log)
    from sp p bk q [unfolded u'] ok ct cnt show ?thesis by blast
  qed
  with c lg lp show ?thesis by blast
qed

lemma install_fails_mid_loop:
  assumes "require_created x cfg s = (Inr (), s1)" and "languages x cfg s1 = (Inr ls, s2)"
    and "set_iter x ls = pre @ l # post"
    and "install_loop x (get_cmd_runner cfg cr) pre s2 = (Inr (), u)"
    and "install_language x (get_cmd_runner cfg cr) l u = (Inl e, t)"
  shows "install x cfg cr s = (Inl e, t) \<and> installed t = installed s \<and> created t
    \<and> languages_cache t = Some ls"
proof -
  let ?r = "get_cmd_runner cfg cr"
  from install_loop_append_failure [OF assms(4,5), of post]
  have "install x cfg cr s = (Inl e, t)"
    by (simp add: install_unfold [OF assms(1,2)] assms(3))
  moreover from assms(1) have c1: "created s1" by (rule require_created_ok)
  from require_created_frame [OF assms(1)] have i1: "installed s1 = installed s" by simp
  from languages_frame [OF assms(2)] c1 have
    f2: "installed s2 = installed s1" "created s2" "languages_cache s2 = Some ls" by simp_all
  from install_loop_frame [OF assms(4)] have
    f3: "installed u = installed s2" "created u = created s2"
      "languages_cache u = languages_cache s2" by simp_all
  from install_language_frame [OF assms(5)] have
    f4: "installed t = installed u" "created t = created u"
      "languages_cache t = languages_cache u" by simp_all
  from i1 f2 f3 f4 have "installed t = installed s" "created t" "languages_cache t = Some ls"
    by simp_all
  ultimately show ?thesis by simp
qed

lemma require_installed_retry:
  assumes "\<not> installed t" and "created t" and "languages_cache t = Some ls"
  shows "require_installed x cfg cr t =
     (case install_loop x (get_cmd_runner cfg cr) (set_iter x ls) t of
        (Inl e', u') \<Rightarrow> (Inl e', u')
      | (Inr _, u') \<Rightarrow> (Inr (), u'\<lparr>installed := True\<rparr>))"
proof -
  from assms(2) have c: "require_created x cfg t = (Inr (), t)" by (rule require_created_created)
  from assms(3) have l: "languages x cfg t = (Inr ls, t)" by (rule languages_cached)
  show ?thesis
    by (simp add: require_installed_uninstalled [OF assms(1)] install_unfold [OF c l])
qed

subsection \<open>Evaluation on the concrete world\<close>

lemmas run_defs = hooks_def manifest_def cached_property_def in_checkout_def
  in_hooks_workspace_def local_cwd_def then_do_def ret_def load_manifest_def Repository_init_def
  require_created.simps create_exists create_absent git_clone_def git_checkout_def
  getitem_def hash_key_def dict_kw_def sha_def repo_url_def has_id_def
  example_ext_def example_config_def example_manifest_def
  example_config_missing_def example_config_twice_def failing_checkout_ext_def
  example_config_two_def example_config_all_def

lemmas install_defs = languages_def install_def install_language_def
  call_install_environment_def cmd_exists_def get_cmd_runner_def from_command_runner_def
  require_installed_def run_hook_def call_run_hook_def install_calls_def set_iter_def
  already_installed_def
  python_backend_def script_backend_def ruby_backend_def

section \<open>The claims\<close>

subsection \<open>C1: the merge of a declared record with its manifest entry\<close>

text \<open>
  C1 says that in \<open>hooks\<close> a field of the declared (override) record wins over the
  manifest entry's, so that the manifest entry \<^verbatim>\<open>{id: x, language: python, args: []}\<close> and
  the override \<^verbatim>\<open>{id: x, args: [--fix]}\<close> give \<^verbatim>\<open>args: [--fix]\<close>. The code builds
  \<^verbatim>\<open>dict(hook, **self.manifest[hook['id']])\<close>: the manifest entry is laid over the
  declared record. On the claim's own example the effective hook has \<^verbatim>\<open>args: []\<close>.
\<close>

theorem hooks_override_wins_counterexample:
  "fst (hooks example_ext example_config (Repository_init {[''abc123'']})) =
     Inr [(''x'', [(''id'', Str ''x''), (''args'', Lst []), (''language'', Str ''python'')])]
   \<and> getitem [(''id'', Str ''x''), (''args'', Lst []), (''language'', Str ''python'')] ''args''
       \<noteq> Inr (Lst [''--fix''])"
  by (simp add: run_defs)

text \<open>
  C1, as the code has it: every entry \<open>d\<close> of a computed \<open>hooks\<close> mapping, under the id
  \<open>k\<close>, comes from a declared record \<open>h\<close> with that id (the last one declared) and the
  manifest entry with that id, and each field of \<open>d\<close> is the manifest entry's when the
  manifest entry has the field, and the declared record's only otherwise.
\<close>

theorem hooks_merge_manifest_wins:
  assumes "hooks_cache s = None" and "hooks x cfg s = (Inr hs, t)" and "map_of hs k = Some d"
  shows "\<exists>m entry h. manifest_cache t = Some m \<and> map_of m k = Some entry
     \<and> h = last (filter (has_id k) (cfg_hooks cfg)) \<and> h \<in> set (cfg_hooks cfg) \<and> has_id k h
     \<and> (\<forall>f. map_of d f = (case map_of entry f of Some v \<Rightarrow> Some v | None \<Rightarrow> map_of h f))"
proof -
  from assms(3) have "hs \<noteq> []" by auto
  with hooks_result [OF assms(1,2)] obtain m where
    m: "manifest_cache t = Some m" and mi: "merge_items m (cfg_hooks cfg) [] = Inr hs"
    by auto
  let ?h = "last (filter (has_id k) (cfg_hooks cfg))"
  from merge_items_lookup [OF mi, of k] assms(3)
  have ex: "\<exists>h \<in> set (cfg_hooks cfg). has_id k h"
    and d: "d = dict_kw ?h (the (map_of m k))"
    by (auto split: if_splits)
  from ex have ne: "filter (has_id k) (cfg_hooks cfg) \<noteq> []"
    by (simp add: filter_empty_conv)
  from last_in_set [OF ne] have hin: "?h \<in> set (cfg_hooks cfg)" and hid: "has_id k ?h"
    by auto
  from merge_items_keys [OF mi] have "k \<in> fst ` set hs" using ex by auto
  have "map_of m k \<noteq> None"
  proof
    assume "map_of m k = None"
    from merge_items_missing [OF hin hid this, of "[]"] mi show False by auto
  qed
  then obtain entry where e: "map_of m k = Some entry" by auto
  show ?thesis
    using m e hin hid d by (auto simp: dict_kw_lookup)
qed

theorem hooks_merge_manifest_wins_witness:
  "hooks_cache (Repository_init {[''abc123'']}) = None
   \<and> hooks example_ext example_config (Repository_init {[''abc123'']}) =
       (Inr [(''x'', [(''id'', Str ''x''), (''args'', Lst []), (''language'', Str ''python'')])],
        snd (hooks example_ext example_config (Repository_init {[''abc123'']})))
   \<and> (\<exists>m entry h.
         manifest_cache (snd (hooks example_ext example_config (Repository_init {[''abc123'']})))
           = Some m
         \<and> map_of m ''x'' = Some entry
         \<and> h = last (filter (has_id ''x'') (cfg_hooks example_config))
         \<and> h \<in> set (cfg_hooks example_config) \<and> has_id ''x'' h
         \<and> (\<forall>f. map_of [(''id'', Str ''x''), (''args'', Lst []), (''language'', Str ''python'')] f
                = (case map_of entry f of Some v \<Rightarrow> Some v | None \<Rightarrow> map_of h f)))"
proof -
  let ?s = "Repository_init {[''abc123'']}"
  let ?d = "[(''id'', Str ''x''), (''args'', Lst []), (''language'', Str ''python'')]"
  have a: "hooks_cache ?s = None" by (simp add: Repository_init_def)
  have b: "hooks example_ext example_config ?s =
      (Inr [(''x'', ?d)], snd (hooks example_ext example_config ?s))"
    by (simp add: run_defs)
  have c: "map_of [(''x'', ?d)] ''x'' = Some ?d" by simp
  from hooks_merge_manifest_wins [OF a b c] a b show ?thesis by blast
qed

subsection \<open>C2: repeated creation\<close>

text \<open>
  C2 says that any number of calls of \<^verbatim>\<open>create()\<close> or \<^verbatim>\<open>require_created()\<close> performs at
  most one fetch, and that \<^verbatim>\<open>create()\<close> on a version directory that already exists
  fetches nothing and leaves the repository with \<^verbatim>\<open>created = true\<close>. In the code
  \<^verbatim>\<open>create\<close> returns at once when the directory exists and never writes \<^verbatim>\<open>__created\<close>
  itself; the flag is set by \<^verbatim>\<open>require_created\<close> after \<^verbatim>\<open>create\<close> has returned. So after a
  direct \<^verbatim>\<open>create()\<close> on an existing directory the flag is still false.
\<close>

theorem create_existing_directory_counterexample:
  "[sha example_config] \<in> fs (Repository_init {[''abc123'']})
   \<and> \<not> created (Repository_init {[''abc123'']})
   \<and> create example_ext example_config (Repository_init {[''abc123'']})
       = (Inr (), Repository_init {[''abc123'']})
   \<and> \<not> created (snd (create example_ext example_config (Repository_init {[''abc123'']})))"
  by (simp add: run_defs)

text \<open>
  C2, as the code has it: \<open>n\<close> calls of \<^verbatim>\<open>require_created()\<close> in a row (a raise ends the
  sequence) add to the log at most one clone and one checkout, and when they return
  with \<open>n \<ge> 1\<close> the flag \<^verbatim>\<open>__created\<close> is set; the same bound holds for \<open>n\<close> calls of
  \<^verbatim>\<open>create()\<close> when a successful checkout leaves the version directory in place; and on
  a version directory that exists \<^verbatim>\<open>create()\<close> calls nothing and changes nothing, while
  \<^verbatim>\<open>require_created()\<close> calls nothing and sets the flag.
\<close>

theorem require_created_fetches_once:
  "(\<exists>evs \<in> fetch_log cfg. calls (snd (repeatedly n (require_created x cfg) s)) = calls s @ evs)
   \<and> (0 < n \<and> repeatedly n (require_created x cfg) s = (Inr (), t) \<longrightarrow> created t)
   \<and> ((\<forall>f. [sha cfg] \<in> f \<and> fst (ext_git_checkout x (sha cfg) f)
            \<longrightarrow> [sha cfg] \<in> snd (ext_git_checkout x (sha cfg) f))
        \<longrightarrow> (\<exists>evs \<in> fetch_log cfg. calls (snd (repeatedly n (create x cfg) s)) = calls s @ evs))
   \<and> ([sha cfg] \<in> fs s \<longrightarrow>
         create x cfg s = (Inr (), s)
         \<and> require_created x cfg s = (Inr (), s\<lparr>created := True\<rparr>))"
  using times_require_created_log [of cfg n x s] times_require_created_ok [of n x cfg s t]
    times_create_log [of cfg x n s] create_exists [of cfg s x] require_created_exists [of cfg s x]
  by blast

theorem require_created_fetches_once_witness:
  "calls (snd (repeatedly 3 (require_created example_ext example_config) (Repository_init {})))
     = [GitClone ''git@example.com:hooks'' ''abc123'', GitCheckout ''abc123'']
   \<and> created (snd (repeatedly 3 (require_created example_ext example_config) (Repository_init {})))
   \<and> calls (snd (repeatedly 3 (create example_ext example_config) (Repository_init {})))
     = [GitClone ''git@example.com:hooks'' ''abc123'', GitCheckout ''abc123'']
   \<and> [sha example_config] \<in> fs (Repository_init {[''abc123'']})
   \<and> create example_ext example_config (Repository_init {[''abc123'']})
       = (Inr (), Repository_init {[''abc123'']})
   \<and> require_created example_ext example_config (Repository_init {[''abc123'']})
       = (Inr (), (Repository_init {[''abc123'']})\<lparr>created := True\<rparr>)
   \<and> (\<exists>evs \<in> fetch_log example_config.
         calls (snd (repeatedly 3 (require_created example_ext example_config) (Repository_init {})))
           = calls (Repository_init {}) @ evs)"
proof -
  have three: "(3::nat) = Suc (Suc (Suc 0))" by simp
  have a: "calls (snd (repeatedly 3 (require_created example_ext example_config) (Repository_init {})))
     = [GitClone ''git@example.com:hooks'' ''abc123'', GitCheckout ''abc123'']"
    "created (snd (repeatedly 3 (require_created example_ext example_config) (Repository_init {})))"
    "repeatedly 3 (require_created example_ext example_config) (Repository_init {}) =
      (Inr (), snd (repeatedly 3 (require_created example_ext example_config) (Repository_init {})))"
    unfolding three by (simp_all add: run_defs)
  have b: "calls (snd (repeatedly 3 (create example_ext example_config) (Repository_init {})))
     = [GitClone ''git@example.com:hooks'' ''abc123'', GitCheckout ''abc123'']"
    unfolding three by (simp add: run_defs)
  have c: "[sha example_config] \<in> fs (Repository_init {[''abc123'']})"
    by (simp add: run_defs)
  show ?thesis
    using require_created_fetches_once [of example_config 3 example_ext "Repository_init {}"
        "snd (repeatedly 3 (require_created example_ext example_config) (Repository_init {}))"]
      require_created_fetches_once [of example_config 3 example_ext "Repository_init {[''abc123'']}"]
      a b c
    by simp
qed

subsection \<open>C3: a checkout that fails after the clone\<close>

text \<open>
  C3: when the version directory is absent, the clone succeeds and the checkout fails,
  \<^verbatim>\<open>create()\<close> raises the checkout's error after both calls and leaves the file system
  the checkout left with the version directory and everything below it removed; and
  whenever \<^verbatim>\<open>create()\<close> raises, the version directory does not exist afterwards, so a
  later existence test does not take the version for fetched.
\<close>

theorem create_failed_checkout_removes_directory:
  "([sha cfg] \<notin> fs s
      \<and> ext_git_clone x (repo_url cfg) (sha cfg) (fs s) = (True, f1)
      \<and> ext_git_checkout x (sha cfg) (insert [sha cfg] f1) = (False, f2)
     \<longrightarrow> (\<exists>t. create x cfg s = (Inl (ProcessExecutionError ''git checkout''), t)
            \<and> calls t = calls s @ [GitClone (repo_url cfg) (sha cfg), GitCheckout (sha cfg)]
            \<and> fs t = rmtree [sha cfg] f2))
   \<and> (create x cfg s = (Inl e, t') \<longrightarrow>
        [sha cfg] \<notin> fs t' \<and> (\<forall>q \<in> fs t'. \<not> prefix [sha cfg] q))"
proof (intro conjI impI)
  assume a: "[sha cfg] \<notin> fs s
      \<and> ext_git_clone x (repo_url cfg) (sha cfg) (fs s) = (True, f1)
      \<and> ext_git_checkout x (sha cfg) (insert [sha cfg] f1) = (False, f2)"
  then have n: "[sha cfg] \<notin> fs s" by simp
  show "\<exists>t. create x cfg s = (Inl (ProcessExecutionError ''git checkout''), t)
            \<and> calls t = calls s @ [GitClone (repo_url cfg) (sha cfg), GitCheckout (sha cfg)]
            \<and> fs t = rmtree [sha cfg] f2"
    unfolding create_absent [OF n] using a
    by (simp add: git_clone_def git_checkout_def)
next
  assume "create x cfg s = (Inl e, t')"
  from create_failure_cleans [OF this]
  show "[sha cfg] \<notin> fs t'" and "\<forall>q \<in> fs t'. \<not> prefix [sha cfg] q" by simp_all
qed

theorem create_failed_checkout_removes_directory_witness:
  "[sha example_config] \<notin> fs (Repository_init {})
   \<and> ext_git_clone failing_checkout_ext (repo_url example_config) (sha example_config)
        (fs (Repository_init {})) = (True, {})
   \<and> ext_git_checkout failing_checkout_ext (sha example_config) (insert [sha example_config] {})
        = (False, {[''abc123'', ''.git''], [''abc123'']})
   \<and> fst (create failing_checkout_ext example_config (Repository_init {}))
        = Inl (ProcessExecutionError ''git checkout'')
   \<and> [sha example_config] \<notin> fs (snd (create failing_checkout_ext example_config (Repository_init {})))
   \<and> [''abc123'', ''.git''] \<notin> fs (snd (create failing_checkout_ext example_config (Repository_init {})))"
proof -
  let ?s = "Repository_init {}"
  have a: "[sha example_config] \<notin> fs ?s
   \<and> ext_git_clone failing_checkout_ext (repo_url example_config) (sha example_config)
        (fs ?s) = (True, {})
   \<and> ext_git_checkout failing_checkout_ext (sha example_config) (insert [sha example_config] {})
        = (False, {[''abc123'', ''.git''], [''abc123'']})"
    by (simp add: run_defs failing_checkout_ext_def)
  have p: "prefix [sha example_config] [''abc123'', ''.git'']"
    by (simp add: sha_def example_config_def)
  note th = create_failed_checkout_removes_directory
    [of example_config ?s failing_checkout_ext "{}" "{[''abc123'', ''.git''], [''abc123'']}"]
  from th a obtain t where
    t: "create failing_checkout_ext example_config ?s
          = (Inl (ProcessExecutionError ''git checkout''), t)"
    by blast
  from th [of "ProcessExecutionError ''git checkout''" t] t
  have n: "[sha example_config] \<notin> fs t"
    and b: "\<forall>q \<in> fs t. \<not> prefix [sha example_config] q"
    by blast+
  from b p have "[''abc123'', ''.git''] \<notin> fs t" by blast
  with a t n show ?thesis by simp
qed

subsection \<open>C4: a declared id without a manifest entry\<close>

text \<open>
  C4: when a declared record has an id \<open>y\<close> for which the manifest has no entry,
  computing \<open>hooks\<close> raises, and nothing is stored in the cache of \<open>hooks\<close>: no partial
  mapping is produced. When the manifest could be loaded and every declared record has
  a string id, the error is the \<open>KeyError\<close> of a declared id (the lookup
  \<^verbatim>\<open>self.manifest[hook['id']]\<close>); this is the error the specification files under
  configuration errors.
\<close>

theorem hooks_missing_manifest_entry:
  assumes "hooks_cache s = None" and "h \<in> set (cfg_hooks cfg)" and "has_id y h"
    and "\<forall>m t. manifest x cfg s = (Inr m, t) \<longrightarrow> map_of m y = None"
  shows "\<exists>e t. hooks x cfg s = (Inl e, t) \<and> hooks_cache t = None
     \<and> ((\<exists>m t'. manifest x cfg s = (Inr m, t')) \<and> (\<forall>h' \<in> set (cfg_hooks cfg). \<exists>k. has_id k h')
          \<longrightarrow> (\<exists>k. e = KeyError k \<and> (\<exists>h' \<in> set (cfg_hooks cfg). has_id k h')))"
proof -
  obtain r1 t1 where m: "manifest x cfg s = (r1, t1)" by (cases "manifest x cfg s")
  obtain r t where hk: "hooks x cfg s = (r, t)" by (cases "hooks x cfg s")
  from assms(2) obtain h0 rest where l: "cfg_hooks cfg = h0 # rest" by (cases "cfg_hooks cfg") auto
  have hc: "hooks_cache t1 = None" using manifest_frame [OF m] assms(1) by simp
  show ?thesis
  proof (cases r1)
    case (Inl e1)
    with m hk l show ?thesis
      unfolding hooks_uncached [OF assms(1)] hooks_items_unfold [of x cfg "cfg_hooks cfg" "[]" s]
      using hc assms(1) by (auto split: sum.splits)
  next
    case (Inr mm)
    with m assms(4) have miss: "map_of mm y = None" by simp
    from merge_items_missing [OF assms(2,3) miss, of "[]"] obtain e where
      e: "merge_items mm (cfg_hooks cfg) [] = Inl e" by auto
    from merge_items_error [OF e] have
      "(\<forall>h' \<in> set (cfg_hooks cfg). \<exists>k. has_id k h') \<longrightarrow>
        (\<exists>k. e = KeyError k \<and> (\<exists>h' \<in> set (cfg_hooks cfg). has_id k h'))"
      by auto
    moreover have "getitem h0 ''id'' \<noteq> Inr v \<or> True" for v by simp
    ultimately show ?thesis
      using m Inr hk l e hc assms(1)
      unfolding hooks_uncached [OF assms(1)] hooks_items_unfold [of x cfg "cfg_hooks cfg" "[]" s]
      by (auto split: sum.splits simp: getitem_def has_id_def split: option.splits)
  qed
qed

theorem hooks_missing_manifest_entry_witness:
  "hooks_cache (Repository_init {[''abc123'']}) = None
   \<and> [(''id'', Str ''y'')] \<in> set (cfg_hooks example_config_missing)
   \<and> has_id ''y'' [(''id'', Str ''y'')]
   \<and> fst (hooks example_ext example_config_missing (Repository_init {[''abc123'']}))
       = Inl (KeyError ''y'')
   \<and> (\<exists>e t. hooks example_ext example_config_missing (Repository_init {[''abc123'']}) = (Inl e, t)
         \<and> hooks_cache t = None)"
proof -
  let ?s = "Repository_init {[''abc123'']}"
  have a: "hooks_cache ?s = None" by (simp add: Repository_init_def)
  have b: "[(''id'', Str ''y'')] \<in> set (cfg_hooks example_config_missing)"
    by (simp add: example_config_missing_def)
  have c: "has_id ''y'' [(''id'', Str ''y'')]" by (simp add: has_id_def)
  have d: "\<forall>m t. manifest example_ext example_config_missing ?s = (Inr m, t)
      \<longrightarrow> map_of m ''y'' = None"
    by (auto simp: run_defs)
  have e: "fst (hooks example_ext example_config_missing ?s) = Inl (KeyError ''y'')"
    by (simp add: run_defs)
  from hooks_missing_manifest_entry [OF a b c d] a b c e show ?thesis by blast
qed

subsection \<open>C5: which languages are installed\<close>

text \<open>
  C5: in the loop of \<^verbatim>\<open>install()\<close>, a language whose backend has no
  \<^verbatim>\<open>ENVIRONMENT_DIR\<close>, or whose environment directory exists under the version-scoped
  command runner, is passed over with no call and no change of state; for any other
  language the backend's \<^verbatim>\<open>install_environment\<close> is applied to the runner and the file
  system, once, and its result and its file system are what the step leaves. Whatever
  \<^verbatim>\<open>install()\<close> returns, its calls of \<^verbatim>\<open>install_environment\<close> follow the fetch, are made
  with the version-scoped runner, name no language twice, and name only languages of
  the set that have an \<^verbatim>\<open>ENVIRONMENT_DIR\<close>. And when \<^verbatim>\<open>install()\<close> returns, it has run the
  loop over all the languages of the \<^verbatim>\<open>languages\<close> set, in whatever order the set is
  iterated; for every language \<open>l\<close> of the set, with \<open>u\<close> the state in which the loop
  reached \<open>l\<close>: if the backend was already installed in \<open>u\<close> the step changed nothing and
  \<^verbatim>\<open>install()\<close> made no call of its \<^verbatim>\<open>install_environment\<close>; otherwise the backend's
  \<^verbatim>\<open>install_environment\<close> was applied to the file system of \<open>u\<close> and returned, and
  \<^verbatim>\<open>install()\<close> made exactly one call of it.
\<close>

theorem install_environment_once_per_language:
  "(ext_languages x l = Some b \<and> already_installed b r (fs s)
     \<longrightarrow> install_language x r l s = (Inr (), s))
   \<and> (ext_languages x l = Some b \<and> \<not> already_installed b r (fs s)
     \<longrightarrow> install_language x r l s =
           (fst (install_environment b r (fs s)),
            s\<lparr>calls := calls s @ [InstallEnvironment l r],
              fs := snd (install_environment b r (fs s))\<rparr>))
   \<and> (install x cfg cr s = (res, t)
     \<longrightarrow> (\<exists>evs \<in> fetch_log cfg. \<exists>names.
           calls t = calls s @ evs @ map (\<lambda>l. InstallEnvironment l (get_cmd_runner cfg cr)) names
           \<and> ((\<forall>ls. languages_cache s = Some ls \<longrightarrow> distinct ls) \<longrightarrow> distinct names)
           \<and> (names = [] \<or> (\<exists>ls. languages_cache t = Some ls \<and> subseq names (set_iter x ls)))
           \<and> (\<forall>l \<in> set names. \<exists>b d. ext_languages x l = Some b \<and> ENVIRONMENT_DIR b = Some d)))
   \<and> (install x cfg cr s = (Inr (), t) \<and> (\<forall>ls. languages_cache s = Some ls \<longrightarrow> distinct ls)
     \<longrightarrow> (\<exists>s1 s2 ls.
           require_created x cfg s = (Inr (), s1) \<and> languages x cfg s1 = (Inr ls, s2)
           \<and> install_loop x (get_cmd_runner cfg cr) (set_iter x ls) s2 = (Inr (), t)
           \<and> (\<forall>l \<in> set ls. \<exists>pre post u b evs.
                 set_iter x ls = pre @ l # post
                 \<and> install_loop x (get_cmd_runner cfg cr) pre s2 = (Inr (), u)
                 \<and> ext_languages x l = Some b
                 \<and> install_loop x (get_cmd_runner cfg cr) post
                      (if already_installed b (get_cmd_runner cfg cr) (fs u) then u
                       else u\<lparr>calls := calls u @ [InstallEnvironment l (get_cmd_runner cfg cr)],
                              fs := snd (install_environment b (get_cmd_runner cfg cr) (fs u))\<rparr>)
                     = (Inr (), t)
                 \<and> (\<not> already_installed b (get_cmd_runner cfg cr) (fs u) \<longrightarrow>
                       fst (install_environment b (get_cmd_runner cfg cr) (fs u)) = Inr ())
                 \<and> calls t = calls s @ evs
                 \<and> install_calls l (get_cmd_runner cfg cr) evs =
                     (if already_installed b (get_cmd_runner cfg cr) (fs u) then 0 else 1))))"
proof (intro conjI impI)
  assume "ext_languages x l = Some b \<and> already_installed b r (fs s)"
  then show "install_language x r l s = (Inr (), s)"
    using install_language_skips [of x l b r s] by blast
next
  assume "ext_languages x l = Some b \<and> \<not> already_installed b r (fs s)"
  then show "install_language x r l s =
           (fst (install_environment b r (fs s)),
            s\<lparr>calls := calls s @ [InstallEnvironment l r],
              fs := snd (install_environment b r (fs s))\<rparr>)"
    using install_language_invokes [of x l b r s] by blast
next
  assume i: "install x cfg cr s = (res, t)"
  from install_frame [OF i]
  show "\<exists>evs \<in> fetch_log cfg. \<exists>names.
           calls t = calls s @ evs @ map (\<lambda>l. InstallEnvironment l (get_cmd_runner cfg cr)) names
           \<and> ((\<forall>ls. languages_cache s = Some ls \<longrightarrow> distinct ls) \<longrightarrow> distinct names)
           \<and> (names = [] \<or> (\<exists>ls. languages_cache t = Some ls \<and> subseq names (set_iter x ls)))
           \<and> (\<forall>l \<in> set names. \<exists>b d. ext_languages x l = Some b \<and> ENVIRONMENT_DIR b = Some d)"
    by blast
next
  assume a: "install x cfg cr s = (Inr (), t) \<and> (\<forall>ls. languages_cache s = Some ls \<longrightarrow> distinct ls)"
  then have i: "install x cfg cr s = (Inr (), t)"
    and d: "\<forall>ls. languages_cache s = Some ls \<longrightarrow> distinct ls" by simp_all
  from install_exact [OF i d]
  show "\<exists>s1 s2 ls.
           require_created x cfg s = (Inr (), s1) \<and> languages x cfg s1 = (Inr ls, s2)
           \<and> install_loop x (get_cmd_runner cfg cr) (set_iter x ls) s2 = (Inr (), t)
           \<and> (\<forall>l \<in> set ls. \<exists>pre post u b evs.
                 set_iter x ls = pre @ l # post
                 \<and> install_loop x (get_cmd_runner cfg cr) pre s2 = (Inr (), u)
                 \<and> ext_languages x l = Some b
                 \<and> install_loop x (get_cmd_runner cfg cr) post
                      (if already_installed b (get_cmd_runner cfg cr) (fs u) then u
                       else u\<lparr>calls := calls u @ [InstallEnvironment l (get_cmd_runner cfg cr)],
                              fs := snd (install_environment b (get_cmd_runner cfg cr) (fs u))\<rparr>)
                     = (Inr (), t)
                 \<and> (\<not> already_installed b (get_cmd_runner cfg cr) (fs u) \<longrightarrow>
                       fst (install_environment b (get_cmd_runner cfg cr) (fs u)) = Inr ())
                 \<and> calls t = calls s @ evs
                 \<and> install_calls l (get_cmd_runner cfg cr) evs =
                     (if already_installed b (get_cmd_runner cfg cr) (fs u) then 0 else 1))" .
qed

theorem install_environment_once_per_language_witness:
  "install_language example_ext [''abc123''] ''script'' (Repository_init {[''abc123'']})
     = (Inr (), Repository_init {[''abc123'']})
   \<and> install_language example_ext [''abc123''] ''python''
       (Repository_init {[''abc123''], [''abc123'', ''py_env'']})
     = (Inr (), Repository_init {[''abc123''], [''abc123'', ''py_env'']})
   \<and> install_language example_ext [''abc123''] ''python'' (Repository_init {[''abc123'']})
     = (Inr (),
        (Repository_init {[''abc123'']})
          \<lparr>calls := [InstallEnvironment ''python'' [''abc123'']],
           fs := {[''abc123'', ''py_env''], [''abc123'']}\<rparr>)
   \<and> languages_cache (Repository_init {[''abc123'']}) = None
   \<and> install example_ext example_config_two [] (Repository_init {[''abc123'']})
     = (Inr (), snd (install example_ext example_config_two [] (Repository_init {[''abc123'']})))
   \<and> calls (snd (install example_ext example_config_two [] (Repository_init {[''abc123'']})))
     = [InstallEnvironment ''python'' [''abc123'']]
   \<and> fs (snd (install example_ext example_config_two [] (Repository_init {[''abc123'']})))
     = {[''abc123'', ''py_env''], [''abc123'']}
   \<and> calls (snd (install example_ext example_config_two []
                   (Repository_init {[''abc123''], [''abc123'', ''py_env'']})))
     = []
   \<and> (\<exists>s1 s2 ls.
         require_created example_ext example_config_two (Repository_init {[''abc123'']})
           = (Inr (), s1)
         \<and> languages example_ext example_config_two s1 = (Inr ls, s2)
         \<and> install_loop example_ext (get_cmd_runner example_config_two []) (set_iter example_ext ls) s2
           = (Inr (), snd (install example_ext example_config_two [] (Repository_init {[''abc123'']}))))"
proof -
  let ?s = "Repository_init {[''abc123'']}"
  let ?s' = "Repository_init {[''abc123''], [''abc123'', ''py_env'']}"
  let ?t = "snd (install example_ext example_config_two [] ?s)"
  have a: "ext_languages example_ext ''script'' = Some script_backend
      \<and> already_installed script_backend [''abc123''] (fs ?s)"
    by (simp add: run_defs install_defs)
  have b: "ext_languages example_ext ''python'' = Some python_backend
      \<and> already_installed python_backend [''abc123''] (fs ?s')"
    by (simp add: run_defs install_defs)
  have c: "ext_languages example_ext ''python'' = Some python_backend
      \<and> \<not> already_installed python_backend [''abc123''] (fs ?s)"
    by (simp add: run_defs install_defs)
  have c': "fst (install_environment python_backend [''abc123''] (fs ?s)) = Inr ()"
    "snd (install_environment python_backend [''abc123''] (fs ?s))
       = {[''abc123'', ''py_env''], [''abc123'']}"
    "calls ?s = []"
    by (simp_all add: run_defs install_defs)
  have d: "calls ?t = [InstallEnvironment ''python'' [''abc123'']]"
    "fs ?t = {[''abc123'', ''py_env''], [''abc123'']}"
    "calls (snd (install example_ext example_config_two [] ?s')) = []"
    by (simp_all add: run_defs install_defs)
  have i: "install example_ext example_config_two [] ?s = (Inr (), ?t)"
    by (simp add: run_defs install_defs)
  have n: "languages_cache ?s = None" by (simp add: Repository_init_def)
  then have n': "\<forall>ls. languages_cache ?s = Some ls \<longrightarrow> distinct ls" by simp
  from install_environment_once_per_language
      [of example_ext "''script''" script_backend "[''abc123'']" ?s] a
  have 1: "install_language example_ext [''abc123''] ''script'' ?s = (Inr (), ?s)" by blast
  from install_environment_once_per_language
      [of example_ext "''python''" python_backend "[''abc123'']" ?s'] b
  have 2: "install_language example_ext [''abc123''] ''python'' ?s' = (Inr (), ?s')" by blast
  from install_environment_once_per_language
      [of example_ext "''python''" python_backend "[''abc123'']" ?s] c
  have "install_language example_ext [''abc123''] ''python'' ?s =
           (fst (install_environment python_backend [''abc123''] (fs ?s)),
            ?s\<lparr>calls := calls ?s @ [InstallEnvironment ''python'' [''abc123'']],
              fs := snd (install_environment python_backend [''abc123''] (fs ?s))\<rparr>)"
    by blast
  with c' have 3: "install_language example_ext [''abc123''] ''python'' ?s
     = (Inr (), ?s\<lparr>calls := [InstallEnvironment ''python'' [''abc123'']],
           fs := {[''abc123'', ''py_env''], [''abc123'']}\<rparr>)"
    by simp
  from install_environment_once_per_language
      [of example_ext _ _ _ ?s example_config_two "[]" _ ?t] i n'
  have 4: "\<exists>s1 s2 ls.
         require_created example_ext example_config_two ?s = (Inr (), s1)
         \<and> languages example_ext example_config_two s1 = (Inr ls, s2)
         \<and> install_loop example_ext (get_cmd_runner example_config_two []) (set_iter example_ext ls) s2
           = (Inr (), ?t)"
    by blast
  from 1 2 3 n i d 4 show ?thesis by blast
qed

subsection \<open>C6: the installed flag\<close>

text \<open>
  C6: when \<^verbatim>\<open>__installed\<close> is false, creation succeeds, the \<^verbatim>\<open>languages\<close> set is
  computed, the loop has passed the languages before \<open>l\<close>, and the
  \<^verbatim>\<open>install_environment\<close> of the backend of \<open>l\<close> raises \<open>e\<close>, then \<^verbatim>\<open>install()\<close> and
  \<^verbatim>\<open>require_installed()\<close> raise \<open>e\<close> in the state the backend left, the languages after
  \<open>l\<close> are not visited, the flag is still false, and the next \<^verbatim>\<open>require_installed()\<close>
  runs the loop again over all the languages from that state. The same holds when
  \<open>l\<close> is not in the registry (\<open>KeyError\<close>). Whenever \<^verbatim>\<open>install()\<close> raises,
  \<^verbatim>\<open>require_installed()\<close> raises the same error and the flag stays false; when it
  returns, the flag is set. If \<^verbatim>\<open>require_installed()\<close> has set the flag, the loop ran
  over all the languages of the set and returned. A language that is already installed
  when the loop reaches it is passed over.
\<close>

theorem installed_flag_only_after_success:
  "(\<not> installed s
      \<and> require_created x cfg s = (Inr (), s1) \<and> languages x cfg s1 = (Inr ls, s2)
      \<and> set_iter x ls = pre @ l # post
      \<and> install_loop x (get_cmd_runner cfg cr) pre s2 = (Inr (), u)
      \<and> ext_languages x l = Some b \<and> \<not> already_installed b (get_cmd_runner cfg cr) (fs u)
      \<and> install_environment b (get_cmd_runner cfg cr) (fs u) = (Inl e, f)
      \<and> t = u\<lparr>calls := calls u @ [InstallEnvironment l (get_cmd_runner cfg cr)], fs := f\<rparr>
     \<longrightarrow> install x cfg cr s = (Inl e, t) \<and> require_installed x cfg cr s = (Inl e, t)
         \<and> \<not> installed t
         \<and> require_installed x cfg cr t =
             (case install_loop x (get_cmd_runner cfg cr) (set_iter x ls) t of
                (Inl e', u') \<Rightarrow> (Inl e', u')
              | (Inr _, u') \<Rightarrow> (Inr (), u'\<lparr>installed := True\<rparr>)))
   \<and> (\<not> installed s
      \<and> require_created x cfg s = (Inr (), s1) \<and> languages x cfg s1 = (Inr ls, s2)
      \<and> set_iter x ls = pre @ l # post
      \<and> install_loop x (get_cmd_runner cfg cr) pre s2 = (Inr (), u)
      \<and> ext_languages x l = None
     \<longrightarrow> install x cfg cr s = (Inl (KeyError l), u)
         \<and> require_installed x cfg cr s = (Inl (KeyError l), u) \<and> \<not> installed u)
   \<and> (\<not> installed s \<and> install x cfg cr s = (Inl e, t)
     \<longrightarrow> require_installed x cfg cr s = (Inl e, t) \<and> \<not> installed t)
   \<and> (\<not> installed s \<and> install x cfg cr s = (Inr (), t)
     \<longrightarrow> require_installed x cfg cr s = (Inr (), t\<lparr>installed := True\<rparr>))
   \<and> (\<not> installed s \<and> installed (snd (require_installed x cfg cr s))
     \<longrightarrow> (\<exists>s1 s2 ls t.
           require_created x cfg s = (Inr (), s1) \<and> languages x cfg s1 = (Inr ls, s2)
           \<and> install_loop x (get_cmd_runner cfg cr) (set_iter x ls) s2 = (Inr (), t)
           \<and> require_installed x cfg cr s = (Inr (), t\<lparr>installed := True\<rparr>)))
   \<and> (ext_languages x l = Some b \<and> already_installed b r (fs u)
     \<longrightarrow> install_language x r l u = (Inr (), u))"
proof (intro conjI impI)
  let ?r = "get_cmd_runner cfg cr"
  assume a: "\<not> installed s
      \<and> require_created x cfg s = (Inr (), s1) \<and> languages x cfg s1 = (Inr ls, s2)
      \<and> set_iter x ls = pre @ l # post
      \<and> install_loop x ?r pre s2 = (Inr (), u)
      \<and> ext_languages x l = Some b \<and> \<not> already_installed b ?r (fs u)
      \<and> install_environment b ?r (fs u) = (Inl e, f)
      \<and> t = u\<lparr>calls := calls u @ [InstallEnvironment l ?r], fs := f\<rparr>"
  then have il: "install_language x ?r l u = (Inl e, t)"
    using install_language_invokes [of x l b ?r u] by simp
  from a have n: "\<not> installed s" and c: "require_created x cfg s = (Inr (), s1)"
    and lg: "languages x cfg s1 = (Inr ls, s2)" and sp: "set_iter x ls = pre @ l # post"
    and p: "install_loop x ?r pre s2 = (Inr (), u)" by simp_all
  note m = install_fails_mid_loop [OF c lg sp p il]
  from m show i: "install x cfg cr s = (Inl e, t)" by simp
  with n show "require_installed x cfg cr s = (Inl e, t)"
    by (simp add: require_installed_uninstalled)
  from m n show nt: "\<not> installed t" by simp
  from m have "created t" "languages_cache t = Some ls" by simp_all
  with nt show "require_installed x cfg cr t =
             (case install_loop x ?r (set_iter x ls) t of
                (Inl e', u') \<Rightarrow> (Inl e', u')
              | (Inr _, u') \<Rightarrow> (Inr (), u'\<lparr>installed := True\<rparr>))"
    by (rule require_installed_retry)
next
  let ?r = "get_cmd_runner cfg cr"
  assume a: "\<not> installed s
      \<and> require_created x cfg s = (Inr (), s1) \<and> languages x cfg s1 = (Inr ls, s2)
      \<and> set_iter x ls = pre @ l # post
      \<and> install_loop x ?r pre s2 = (Inr (), u)
      \<and> ext_languages x l = None"
  then have il: "install_language x ?r l u = (Inl (KeyError l), u)"
    by (simp add: install_language_def)
  from a have n: "\<not> installed s" and c: "require_created x cfg s = (Inr (), s1)"
    and lg: "languages x cfg s1 = (Inr ls, s2)" and sp: "set_iter x ls = pre @ l # post"
    and p: "install_loop x ?r pre s2 = (Inr (), u)" by simp_all
  note m = install_fails_mid_loop [OF c lg sp p il]
  from m show "install x cfg cr s = (Inl (KeyError l), u)" by simp
  with n show "require_installed x cfg cr s = (Inl (KeyError l), u)"
    by (simp add: require_installed_uninstalled)
  from m n show "\<not> installed u" by simp
next
  assume a: "\<not> installed s \<and> install x cfg cr s = (Inl e, t)"
  then show "require_installed x cfg cr s = (Inl e, t)"
    by (simp add: require_installed_uninstalled)
  from a install_frame [of x cfg cr s "Inl e" t] show "\<not> installed t" by simp
next
  assume "\<not> installed s \<and> install x cfg cr s = (Inr (), t)"
  then show "require_installed x cfg cr s = (Inr (), t\<lparr>installed := True\<rparr>)"
    by (simp add: require_installed_uninstalled)
next
  assume a: "\<not> installed s \<and> installed (snd (require_installed x cfg cr s))"
  then have n: "\<not> installed s" and y: "installed (snd (require_installed x cfg cr s))"
    by simp_all
  note ru = require_installed_uninstalled [OF n, of x cfg cr]
  obtain r1 t1 where i: "install x cfg cr s = (r1, t1)" by (cases "install x cfg cr s")
  from install_frame [OF i] have it: "installed t1 = installed s" by simp
  have r1: "r1 = Inr ()"
  proof (cases r1)
    case (Inl e')
    with y i it n show ?thesis by (simp add: ru)
  next
    case (Inr v)
    then show ?thesis by simp
  qed
  with i have ri: "require_installed x cfg cr s = (Inr (), t1\<lparr>installed := True\<rparr>)"
    by (simp add: ru)
  from install_ok_steps [OF i [unfolded r1]] ri
  show "\<exists>s1 s2 ls t.
           require_created x cfg s = (Inr (), s1) \<and> languages x cfg s1 = (Inr ls, s2)
           \<and> install_loop x (get_cmd_runner cfg cr) (set_iter x ls) s2 = (Inr (), t)
           \<and> require_installed x cfg cr s = (Inr (), t\<lparr>installed := True\<rparr>)"
    by blast
next
  assume "ext_languages x l = Some b \<and> already_installed b r (fs u)"
  then show "install_language x r l u = (Inr (), u)"
    using install_language_skips [of x l b r u] by blast
qed

theorem installed_flag_only_after_success_witness:
  "\<not> installed (Repository_init {[''abc123'']})
   \<and> set_iter example_ext [''ruby'', ''script'', ''python''] = [''python'', ''script''] @ ''ruby'' # []
   \<and> install example_ext example_config_all [] (Repository_init {[''abc123'']})
       = (Inl (CollaboratorError ''gem install''),
          snd (install example_ext example_config_all [] (Repository_init {[''abc123'']})))
   \<and> require_installed example_ext example_config_all [] (Repository_init {[''abc123'']})
       = (Inl (CollaboratorError ''gem install''),
          snd (install example_ext example_config_all [] (Repository_init {[''abc123'']})))
   \<and> \<not> installed (snd (install example_ext example_config_all [] (Repository_init {[''abc123'']})))
   \<and> calls (snd (install example_ext example_config_all [] (Repository_init {[''abc123'']})))
       = [InstallEnvironment ''python'' [''abc123''], InstallEnvironment ''ruby'' [''abc123'']]
   \<and> calls (snd (require_installed example_ext example_config_all []
                (snd (install example_ext example_config_all [] (Repository_init {[''abc123'']})))))
       = [InstallEnvironment ''python'' [''abc123''], InstallEnvironment ''ruby'' [''abc123''],
          InstallEnvironment ''ruby'' [''abc123'']]"
proof -
  let ?s = "Repository_init {[''abc123'']}"
  let ?s1 = "snd (require_created example_ext example_config_all ?s)"
  let ?s2 = "snd (languages example_ext example_config_all ?s1)"
  let ?u = "snd (install_loop example_ext [''abc123''] [''python'', ''script''] ?s2)"
  let ?t = "?u\<lparr>calls := calls ?u @ [InstallEnvironment ''ruby'' [''abc123'']], fs := fs ?u\<rparr>"
  let ?e = "CollaboratorError ''gem install''"
  have g: "get_cmd_runner example_config_all [] = [''abc123'']"
    by (simp add: run_defs install_defs)
  have a: "\<not> installed ?s" by (simp add: Repository_init_def)
  have c: "require_created example_ext example_config_all ?s = (Inr (), ?s1)"
    by (simp add: run_defs)
  have lg: "languages example_ext example_config_all ?s1 = (Inr [''ruby'', ''script'', ''python''], ?s2)"
    by (simp add: run_defs install_defs)
  have sp: "set_iter example_ext [''ruby'', ''script'', ''python''] = [''python'', ''script''] @ ''ruby'' # []"
    by (simp add: run_defs install_defs)
  have p: "install_loop example_ext (get_cmd_runner example_config_all []) [''python'', ''script''] ?s2
      = (Inr (), ?u)"
    unfolding g by (simp add: run_defs install_defs)
  have b: "ext_languages example_ext ''ruby'' = Some ruby_backend"
    by (simp add: example_ext_def)
  have na: "\<not> already_installed ruby_backend (get_cmd_runner example_config_all []) (fs ?u)"
    unfolding g by (simp add: run_defs install_defs)
  have ie: "install_environment ruby_backend (get_cmd_runner example_config_all []) (fs ?u)
      = (Inl ?e, fs ?u)"
    unfolding g by (simp add: run_defs install_defs)
  have tt: "?t = ?u\<lparr>calls := calls ?u
        @ [InstallEnvironment ''ruby'' (get_cmd_runner example_config_all [])], fs := fs ?u\<rparr>"
    unfolding g by simp
  from installed_flag_only_after_success
    [of ?s example_ext example_config_all ?s1 "[''ruby'', ''script'', ''python'']" ?s2
        "[''python'', ''script'']" "''ruby''" "[]" "[]" ?u ruby_backend ?e "fs ?u" ?t]
    a c lg sp p b na ie tt
  have r: "install example_ext example_config_all [] ?s = (Inl ?e, ?t)"
    "require_installed example_ext example_config_all [] ?s = (Inl ?e, ?t)"
    "\<not> installed ?t"
    by blast+
  have ev: "calls ?t = [InstallEnvironment ''python'' [''abc123''], InstallEnvironment ''ruby'' [''abc123'']]"
    "calls (snd (require_installed example_ext example_config_all [] ?t))
       = [InstallEnvironment ''python'' [''abc123''], InstallEnvironment ''ruby'' [''abc123''],
          InstallEnvironment ''ruby'' [''abc123'']]"
    by (simp_all add: run_defs install_defs)
  from r have st: "snd (install example_ext example_config_all [] ?s) = ?t" by simp
  from a sp r ev show ?thesis unfolding st by blast
qed

subsection \<open>C7: dispatch of a known hook\<close>

text \<open>
  C7: when installation succeeds and \<open>hook_id\<close> is a key of \<open>hooks\<close>, \<^verbatim>\<open>run_hook\<close> calls
  the \<^verbatim>\<open>run_hook\<close> of the backend registered under the effective hook's \<^verbatim>\<open>language\<close>,
  with the version-scoped command runner, the effective hook and \<open>file_args\<close>, calls
  no other backend's \<^verbatim>\<open>run_hook\<close>, and returns what the backend returned; an exit
  status other than zero is part of that value and is not raised.
\<close>

theorem run_hook_dispatches_to_backend:
  assumes "require_installed x cfg cr s = (Inr (), s1)" and "hooks x cfg s1 = (Inr hs, s2)"
    and "map_of hs hook_id = Some hook" and "map_of hook ''language'' = Some (Str l)"
    and "ext_languages x l = Some b"
  shows "run_hook x cfg cr hook_id file_args s =
      (fst (backend_run_hook b (cr @ [sha cfg]) hook file_args (fs s2)),
       s2\<lparr>calls := calls s2 @ [RunHook l (cr @ [sha cfg]) hook file_args],
          fs := snd (backend_run_hook b (cr @ [sha cfg]) hook file_args (fs s2))\<rparr>)
    \<and> filter is_run (calls (snd (run_hook x cfg cr hook_id file_args s)))
        = filter is_run (calls s) @ [RunHook l (cr @ [sha cfg]) hook file_args]"
proof -
  have r: "run_hook x cfg cr hook_id file_args s =
      (fst (backend_run_hook b (cr @ [sha cfg]) hook file_args (fs s2)),
       s2\<lparr>calls := calls s2 @ [RunHook l (cr @ [sha cfg]) hook file_args],
          fs := snd (backend_run_hook b (cr @ [sha cfg]) hook file_args (fs s2))\<rparr>)"
    unfolding run_hook_unfold [OF assms(1,2)] using assms(3,4,5)
    by (simp add: getitem_def hash_key_def call_run_hook_def get_cmd_runner_def
        from_command_runner_def split: prod.splits)
  have "filter is_run (calls s2) = filter is_run (calls s)"
    using require_installed_no_run [OF assms(1)] hooks_no_run [OF assms(2)] by simp
  with r show ?thesis by simp
qed

theorem run_hook_dispatches_to_backend_witness:
  "run_hook example_ext example_config [] ''x'' [''a.py''] (Repository_init {})
     = (Inr (1, ''failed''),
        snd (run_hook example_ext example_config [] ''x'' [''a.py''] (Repository_init {})))
   \<and> calls (snd (run_hook example_ext example_config [] ''x'' [''a.py''] (Repository_init {})))
     = [GitClone ''git@example.com:hooks'' ''abc123'', GitCheckout ''abc123'',
        InstallEnvironment ''python'' [''abc123''],
        RunHook ''python'' [''abc123'']
          [(''id'', Str ''x''), (''args'', Lst []), (''language'', Str ''python'')] [''a.py'']]
   \<and> filter is_run (calls (snd (run_hook example_ext example_config [] ''x'' [''a.py'']
          (Repository_init {}))))
     = filter is_run (calls (Repository_init {})) @
         [RunHook ''python'' ([] @ [sha example_config])
           [(''id'', Str ''x''), (''args'', Lst []), (''language'', Str ''python'')] [''a.py'']]"
proof -
  let ?s = "Repository_init {}"
  let ?s1 = "snd (require_installed example_ext example_config [] ?s)"
  let ?hook = "[(''id'', Str ''x''), (''args'', Lst []), (''language'', Str ''python'')]"
  have a: "require_installed example_ext example_config [] ?s = (Inr (), ?s1)"
    by (simp add: run_defs install_defs)
  have b: "hooks example_ext example_config ?s1 = (Inr [(''x'', ?hook)], ?s1)"
    by (simp add: run_defs install_defs)
  have c: "map_of [(''x'', ?hook)] ''x'' = Some ?hook" by simp
  have d: "map_of ?hook ''language'' = Some (Str ''python'')" by simp
  have e: "ext_languages example_ext ''python'' = Some python_backend"
    by (simp add: example_ext_def)
  have g: "run_hook example_ext example_config [] ''x'' [''a.py''] ?s
     = (Inr (1, ''failed''),
        snd (run_hook example_ext example_config [] ''x'' [''a.py''] ?s))"
    "calls (snd (run_hook example_ext example_config [] ''x'' [''a.py''] ?s))
     = [GitClone ''git@example.com:hooks'' ''abc123'', GitCheckout ''abc123'',
        InstallEnvironment ''python'' [''abc123''],
        RunHook ''python'' [''abc123''] ?hook [''a.py'']]"
    by (simp_all add: run_defs install_defs)
  from run_hook_dispatches_to_backend [OF a b c d e, of "[''a.py'']"] g
  show ?thesis by blast
qed

subsection \<open>C8: an unknown hook id\<close>

text \<open>
  C8: when installation succeeds and \<open>hook_id\<close> is not a key of \<open>hooks\<close>, \<^verbatim>\<open>run_hook\<close>
  raises the \<open>KeyError\<close> of \<^verbatim>\<open>self.hooks[hook_id]\<close> (the specification's not-found
  error), and no backend's \<^verbatim>\<open>run_hook\<close> is called.
\<close>

theorem run_hook_unknown_id_raises:
  assumes "require_installed x cfg cr s = (Inr (), s1)" and "hooks x cfg s1 = (Inr hs, s2)"
    and "map_of hs hook_id = None"
  shows "fst (run_hook x cfg cr hook_id file_args s) = Inl (KeyError hook_id)
    \<and> filter is_run (calls (snd (run_hook x cfg cr hook_id file_args s))) = filter is_run (calls s)"
proof -
  have r: "run_hook x cfg cr hook_id file_args s = (Inl (KeyError hook_id), s2)"
    unfolding run_hook_unfold [OF assms(1,2)] using assms(3) by simp
  have "filter is_run (calls s2) = filter is_run (calls s)"
    using require_installed_no_run [OF assms(1)] hooks_no_run [OF assms(2)] by simp
  with r show ?thesis by simp
qed

theorem run_hook_unknown_id_raises_witness:
  "fst (run_hook example_ext example_config [] ''nope'' [''a.py''] (Repository_init {}))
     = Inl (KeyError ''nope'')
   \<and> filter is_run
        (calls (snd (run_hook example_ext example_config [] ''nope'' [''a.py''] (Repository_init {}))))
     = filter is_run (calls (Repository_init {}))"
proof -
  let ?s = "Repository_init {}"
  let ?s1 = "snd (require_installed example_ext example_config [] ?s)"
  let ?hook = "[(''id'', Str ''x''), (''args'', Lst []), (''language'', Str ''python'')]"
  have a: "require_installed example_ext example_config [] ?s = (Inr (), ?s1)"
    by (simp add: run_defs install_defs)
  have b: "hooks example_ext example_config ?s1 = (Inr [(''x'', ?hook)], ?s1)"
    by (simp add: run_defs install_defs)
  have c: "map_of [(''x'', ?hook)] ''nope'' = None" by simp
  from run_hook_unknown_id_raises [OF a b c, of "[''a.py'']"] show ?thesis .
qed

subsection \<open>C9: the side effects before the failed lookup\<close>

text \<open>
  C9: \<^verbatim>\<open>run_hook\<close> requires installation before it looks \<open>hook_id\<close> up. When the lookup
  fails, the state left behind is the one after \<^verbatim>\<open>require_installed\<close> and the access to
  \<open>hooks\<close>: the installed flag is set, and if it was not set before, the repository is
  created, the log holds the fetch and install calls, and the state differs from the
  one before the call; if moreover the version directory was absent, the log holds the
  clone.
\<close>

theorem run_hook_unknown_id_keeps_side_effects:
  assumes "require_installed x cfg cr s = (Inr (), s1)" and "hooks x cfg s1 = (Inr hs, s2)"
    and "map_of hs hook_id = None"
  shows "run_hook x cfg cr hook_id file_args s = (Inl (KeyError hook_id), s2)
    \<and> installed s2
    \<and> (\<not> installed s \<longrightarrow>
          s2 \<noteq> s \<and> created s2 \<and> calls s2 = calls s1 \<and> fs s2 = fs s1
          \<and> (\<exists>evs \<in> fetch_log cfg. \<exists>names.
                calls s2 =
                  calls s @ evs @ map (\<lambda>l. InstallEnvironment l (get_cmd_runner cfg cr)) names))
    \<and> (\<not> installed s \<and> \<not> created s \<and> [sha cfg] \<notin> fs s \<longrightarrow>
          (\<exists>rest. calls s2 = calls s @ GitClone (repo_url cfg) (sha cfg) # rest))"
proof (intro conjI impI)
  show "run_hook x cfg cr hook_id file_args s = (Inl (KeyError hook_id), s2)"
    unfolding run_hook_unfold [OF assms(1,2)] using assms(3) by simp
  note ok = require_installed_ok [OF assms(1)]
  from ok hooks_frame [OF assms(2)] show i2: "installed s2" by simp
  {
    assume n: "\<not> installed s"
    with ok have c1: "created s1" by simp
    note hc = hooks_created [OF c1 assms(2)]
    from n i2 show "s2 \<noteq> s" by auto
    from hc show "created s2" and "calls s2 = calls s1" and "fs s2 = fs s1" by simp_all
    from ok hc show "\<exists>evs \<in> fetch_log cfg. \<exists>names.
        calls s2 = calls s @ evs @ map (\<lambda>l. InstallEnvironment l (get_cmd_runner cfg cr)) names"
      by simp
  }
  {
    assume a: "\<not> installed s \<and> \<not> created s \<and> [sha cfg] \<notin> fs s"
    with ok have c1: "created s1" by simp
    note hc = hooks_created [OF c1 assms(2)]
    obtain r1 t1 where i: "install x cfg cr s = (r1, t1)" by (cases "install x cfg cr s")
    with assms(1) a obtain u where r1: "r1 = Inr u" and t: "s1 = t1\<lparr>installed := True\<rparr>"
      by (cases r1) (auto simp: require_installed_uninstalled)
    from a i r1 install_clones [of s cfg x cr u t1] obtain rest where
      "calls t1 = calls s @ GitClone (repo_url cfg) (sha cfg) # rest" by blast
    with t hc show "\<exists>rest. calls s2 = calls s @ GitClone (repo_url cfg) (sha cfg) # rest"
      by simp
  }
qed

theorem run_hook_unknown_id_keeps_side_effects_witness:
  "run_hook example_ext example_config [] ''nope'' [''a.py''] (Repository_init {})
     = (Inl (KeyError ''nope''),
        snd (run_hook example_ext example_config [] ''nope'' [''a.py''] (Repository_init {})))
   \<and> calls (snd (run_hook example_ext example_config [] ''nope'' [''a.py''] (Repository_init {})))
     = [GitClone ''git@example.com:hooks'' ''abc123'', GitCheckout ''abc123'',
        InstallEnvironment ''python'' [''abc123'']]
   \<and> fs (snd (run_hook example_ext example_config [] ''nope'' [''a.py''] (Repository_init {})))
     = {[''abc123'', ''py_env''], [''abc123'']}
   \<and> installed (snd (run_hook example_ext example_config [] ''nope'' [''a.py''] (Repository_init {})))
   \<and> snd (run_hook example_ext example_config [] ''nope'' [''a.py''] (Repository_init {}))
       \<noteq> Repository_init {}"
proof -
  let ?s = "Repository_init {}"
  let ?s1 = "snd (require_installed example_ext example_config [] ?s)"
  let ?hook = "[(''id'', Str ''x''), (''args'', Lst []), (''language'', Str ''python'')]"
  have a: "require_installed example_ext example_config [] ?s = (Inr (), ?s1)"
    by (simp add: run_defs install_defs)
  have b: "hooks example_ext example_config ?s1 = (Inr [(''x'', ?hook)], ?s1)"
    by (simp add: run_defs install_defs)
  have c: "map_of [(''x'', ?hook)] ''nope'' = None" by simp
  have n: "\<not> installed ?s" by (simp add: Repository_init_def)
  have g: "calls ?s1
     = [GitClone ''git@example.com:hooks'' ''abc123'', GitCheckout ''abc123'',
        InstallEnvironment ''python'' [''abc123'']]"
    "fs ?s1 = {[''abc123'', ''py_env''], [''abc123'']}"
    by (simp_all add: run_defs install_defs)
  from run_hook_unknown_id_keeps_side_effects [OF a b c, of "[''a.py'']"] n g
  show ?thesis by simp
qed

subsection \<open>C10: an id declared more than once\<close>

text \<open>
  C10: when every declared record has an id with a manifest entry, \<open>hooks\<close> raises no
  error, however often an id is declared; the mapping has each declared id exactly
  once, and maps it to the merge of the last record declared with that id.
\<close>

theorem hooks_duplicate_id_last_wins:
  assumes "hooks_cache s = None" and "manifest x cfg s = (Inr m, s1)"
    and "\<forall>h \<in> set (cfg_hooks cfg). \<exists>k. has_id k h \<and> map_of m k \<noteq> None"
  shows "\<exists>hs t. hooks x cfg s = (Inr hs, t) \<and> hooks_cache t = Some hs
     \<and> distinct (map fst hs)
     \<and> fst ` set hs = {k. \<exists>h \<in> set (cfg_hooks cfg). has_id k h}
     \<and> (\<forall>k \<in> fst ` set hs.
           map_of hs k =
             Some (dict_kw (last (filter (has_id k) (cfg_hooks cfg))) (the (map_of m k))))"
proof -
  from merge_items_ok [OF assms(3), of "[]"] obtain hs where
    mi: "merge_items m (cfg_hooks cfg) [] = Inr hs" by auto
  have g: "h \<in> set (cfg_hooks cfg) \<Longrightarrow> \<exists>v. getitem h ''id'' = Inr v" for h
    using assms(3) by (auto simp: has_id_def getitem_def)
  have hk: "\<exists>t. hooks x cfg s = (Inr hs, t) \<and> hooks_cache t = Some hs"
    unfolding hooks_uncached [OF assms(1)] hooks_items_unfold [of x cfg "cfg_hooks cfg" "[]" s]
    using mi assms(2) g by (auto split: list.splits sum.splits)
  have d: "distinct (map fst hs)" using merge_items_distinct [OF mi] by simp
  have k: "fst ` set hs = {k. \<exists>h \<in> set (cfg_hooks cfg). has_id k h}"
    using merge_items_keys [OF mi] by simp
  have l: "\<forall>k \<in> fst ` set hs.
           map_of hs k =
             Some (dict_kw (last (filter (has_id k) (cfg_hooks cfg))) (the (map_of m k)))"
    unfolding k using merge_items_lookup [OF mi] by auto
  from hk d k l show ?thesis by blast
qed

theorem hooks_duplicate_id_last_wins_witness:
  "hooks_cache (Repository_init {[''abc123'']}) = None
   \<and> fst (hooks example_ext example_config_twice (Repository_init {[''abc123'']})) =
       Inr [(''x'', [(''id'', Str ''x''), (''files'', Str ''py$''), (''args'', Lst []),
                     (''language'', Str ''python'')]),
            (''lint'', [(''id'', Str ''lint''), (''language'', Str ''script'')])]
   \<and> (\<exists>hs t. hooks example_ext example_config_twice (Repository_init {[''abc123'']}) = (Inr hs, t)
         \<and> hooks_cache t = Some hs \<and> distinct (map fst hs)
         \<and> fst ` set hs = {k. \<exists>h \<in> set (cfg_hooks example_config_twice). has_id k h})"
proof -
  let ?s = "Repository_init {[''abc123'']}"
  let ?m = "[(''x'', [(''id'', Str ''x''), (''language'', Str ''python''), (''args'', Lst [])]),
             (''lint'', [(''id'', Str ''lint''), (''language'', Str ''script'')]),
             (''rubocop'', [(''id'', Str ''rubocop''), (''language'', Str ''ruby'')])]"
  have a: "hooks_cache ?s = None" by (simp add: Repository_init_def)
  have b: "manifest example_ext example_config_twice ?s =
      (Inr ?m, snd (manifest example_ext example_config_twice ?s))"
    by (simp add: run_defs)
  have c: "\<forall>h \<in> set (cfg_hooks example_config_twice). \<exists>k. has_id k h \<and> map_of ?m k \<noteq> None"
    by (simp add: run_defs)
  have e: "fst (hooks example_ext example_config_twice ?s) =
       Inr [(''x'', [(''id'', Str ''x''), (''files'', Str ''py$''), (''args'', Lst []),
                     (''language'', Str ''python'')]),
            (''lint'', [(''id'', Str ''lint''), (''language'', Str ''script'')])]"
    by (simp add: run_defs)
  from hooks_duplicate_id_last_wins [OF a b c] a e show ?thesis by blast
qed

end
